theory Spec2Isabelle
  imports Main
begin

section \<open>Values, errors and the Python operations the crawler uses\<close>

text \<open>
  The crawler of \<^verbatim>\<open>github_search_actions.py\<close> handles values decoded from JSON and
  YAML without declaring their shape, so the model carries them as a datatype of dynamic
  values. A dictionary is an association list in insertion order, as Python dictionaries
  are. Strings are lists of code points below 256. Floating-point scalars, timestamps and
  binary scalars are outside the value model.
\<close>

datatype val =
    VNone
  | VBool bool
  | VInt int
  | VStr string
  | VList "val list"
  | VDict "(val \<times> val) list"

text \<open>
  The exceptions that the source can raise or let through: the ones of the Python
  operations on an unexpected shape, the failure of a decoder, a failure raised by the
  HTTP library, the two refusals of \<^verbatim>\<open>time.sleep\<close>, and \<^verbatim>\<open>sys.exit(n)\<close>.
\<close>

datatype error =
    KeyError
  | IndexError
  | TypeError
  | AttributeError
  | DecodeError
  | RequestException
  | ValueError
  | OverflowError
  | SystemExit int

subsection \<open>Strings\<close>

definition lower_char :: "char \<Rightarrow> char" where
  "lower_char c =
     (let n = (of_char c :: nat) in
      if (65 \<le> n \<and> n \<le> 90) \<or> (192 \<le> n \<and> n \<le> 222 \<and> n \<noteq> 215)
      then char_of (n + 32) else c)"

definition lower :: "string \<Rightarrow> string" where
  "lower s = map lower_char s"

definition isspace :: "char \<Rightarrow> bool" where
  "isspace c =
     (let n = (of_char c :: nat) in
      (9 \<le> n \<and> n \<le> 13) \<or> (28 \<le> n \<and> n \<le> 32) \<or> n = 133 \<or> n = 160)"

definition strip :: "string \<Rightarrow> string" where
  "strip s = rev (dropWhile isspace (rev (dropWhile isspace s)))"

definition startswith :: "string \<Rightarrow> string \<Rightarrow> bool" where
  "startswith s p = (take (length p) s = p)"

text \<open>
  \<^verbatim>\<open>s.split(sep)\<close> for a one-character separator: the segments between the
  occurrences of the separator, so never an empty list.
\<close>

fun split :: "char \<Rightarrow> string \<Rightarrow> string list" where
  "split sep [] = [[]]"
| "split sep (c # cs) =
     (if c = sep then [] # split sep cs
      else (case split sep cs of
              [] \<Rightarrow> [[c]]
            | seg # segs \<Rightarrow> (c # seg) # segs))"

subsection \<open>Dynamic operations\<close>

text \<open>Truthiness, as \<^verbatim>\<open>if not x\<close> reads it.\<close>

fun truthy :: "val \<Rightarrow> bool" where
  "truthy VNone = False"
| "truthy (VBool b) = b"
| "truthy (VInt i) = (i \<noteq> 0)"
| "truthy (VStr s) = (s \<noteq> [])"
| "truthy (VList xs) = (xs \<noteq> [])"
| "truthy (VDict kvs) = (kvs \<noteq> [])"

text \<open>
  Dictionary keys: \<^verbatim>\<open>True\<close> and \<^verbatim>\<open>1\<close> (and \<^verbatim>\<open>False\<close> and
  \<^verbatim>\<open>0\<close>) are the same key.
\<close>

fun py_key :: "val \<Rightarrow> val" where
  "py_key (VBool b) = VInt (if b then 1 else 0)"
| "py_key v = v"

fun lookup :: "(val \<times> 'a) list \<Rightarrow> val \<Rightarrow> 'a option" where
  "lookup [] k = None"
| "lookup ((k', v) # kvs) k = (if py_key k' = py_key k then Some v else lookup kvs k)"

text \<open>\<^verbatim>\<open>x[key]\<close> for a string key.\<close>

fun getitem :: "val \<Rightarrow> string \<Rightarrow> error + val" where
  "getitem (VDict kvs) key =
     (case lookup kvs (VStr key) of None \<Rightarrow> Inl KeyError | Some v \<Rightarrow> Inr v)"
| "getitem v key = Inl TypeError"

text \<open>\<^verbatim>\<open>x.get(key, default)\<close>: only a dictionary has the method.\<close>

fun get :: "val \<Rightarrow> string \<Rightarrow> val \<Rightarrow> error + val" where
  "get (VDict kvs) key dflt =
     (case lookup kvs (VStr key) of None \<Rightarrow> Inr dflt | Some v \<Rightarrow> Inr v)"
| "get v key dflt = Inl AttributeError"

text \<open>\<^verbatim>\<open>for x in v\<close>: the elements of a list, the keys of a dictionary, the
  characters of a string; anything else is not iterable.\<close>

fun iter :: "val \<Rightarrow> error + val list" where
  "iter (VList xs) = Inr xs"
| "iter (VDict kvs) = Inr (map fst kvs)"
| "iter (VStr s) = Inr (map (\<lambda>c. VStr [c]) s)"
| "iter v = Inl TypeError"

fun isinstance_dict :: "val \<Rightarrow> bool" where
  "isinstance_dict (VDict kvs) = True"
| "isinstance_dict v = False"

fun isinstance_list :: "val \<Rightarrow> bool" where
  "isinstance_list (VList xs) = True"
| "isinstance_list v = False"


text \<open>\<^verbatim>\<open>d[key] = value\<close> on a dictionary under construction: lists and dictionaries
  are unhashable; an existing key keeps its place, a new one goes last.\<close>

fun hashable :: "val \<Rightarrow> bool" where
  "hashable (VList xs) = False"
| "hashable (VDict kvs) = False"
| "hashable v = True"

fun update :: "(val \<times> 'a) list \<Rightarrow> val \<Rightarrow> 'a \<Rightarrow> (val \<times> 'a) list" where
  "update [] k v = [(k, v)]"
| "update ((k', v') # kvs) k v =
     (if py_key k' = py_key k then (k', v) # kvs else (k', v') # update kvs k v)"

definition setitem :: "(val \<times> 'a) list \<Rightarrow> val \<Rightarrow> 'a \<Rightarrow> error + (val \<times> 'a) list" where
  "setitem d k v = (if hashable k then Inr (update d k v) else Inl TypeError)"

text \<open>\<^verbatim>\<open>x == 0\<close>, and \<^verbatim>\<open>x - n\<close> for an integer \<open>n\<close>: a Boolean counts as 0 or 1.\<close>

fun eq_zero :: "val \<Rightarrow> bool" where
  "eq_zero (VInt i) = (i = 0)"
| "eq_zero (VBool b) = (\<not> b)"
| "eq_zero v = False"

fun minus_int :: "val \<Rightarrow> int \<Rightarrow> error + int" where
  "minus_int (VInt i) n = Inr (i - n)"
| "minus_int (VBool b) n = Inr ((if b then 1 else 0) - n)"
| "minus_int v n = Inl TypeError"

text \<open>\<^verbatim>\<open>s.lower()\<close>: only a string has the method.\<close>

fun lower_val :: "val \<Rightarrow> error + string" where
  "lower_val (VStr s) = Inr (lower s)"
| "lower_val v = Inl AttributeError"

text \<open>A list comprehension \<^verbatim>\<open>[f(x) for x in xs]\<close> stops at the first exception.\<close>

fun comprehension :: "('a \<Rightarrow> error + 'b) \<Rightarrow> 'a list \<Rightarrow> error + 'b list" where
  "comprehension f [] = Inr []"
| "comprehension f (x # xs) =
     (case f x of
        Inl e \<Rightarrow> Inl e
      | Inr y \<Rightarrow> (case comprehension f xs of Inl e \<Rightarrow> Inl e | Inr ys \<Rightarrow> Inr (y # ys)))"

section \<open>ActionClassifier: \<^verbatim>\<open>is_third_party\<close>\<close>

text \<open>
  \<^verbatim>\<open>
  action_ref = action_ref.lower().strip()
  if action_ref.startswith("actions/"):
      return False
  parts = action_ref.split("@")[0].split("/")
  if not parts:
      return False
  owner = parts[0]
  return owner not in own_orgs and owner != "docker"
  \<close>
  The result \<open>True\<close> is third-party, \<open>False\<close> is first-party. \<open>own_orgs\<close> is the list of
  lowercased organization names that \<^verbatim>\<open>main\<close> builds.
\<close>

definition is_third_party :: "val \<Rightarrow> string list \<Rightarrow> error + bool" where
  "is_third_party action_ref own_orgs =
     (case action_ref of
        VStr s \<Rightarrow>
          (let r = strip (lower s) in
           if startswith r ''actions/'' then Inr False
           else (case split (CHR ''@'') r of
                   [] \<Rightarrow> Inl IndexError
                 | before_at # rest \<Rightarrow>
                     (let parts = split (CHR ''/'') before_at in
                      (case parts of
                         [] \<Rightarrow> Inr False
                       | owner # more \<Rightarrow>
                           Inr (\<not> List.member own_orgs owner \<and> owner \<noteq> ''docker'')))))
      | _ \<Rightarrow> Inl AttributeError)"

text \<open>
  The owner segment as the specification words it: the text before the first \<open>/\<close> of the
  part before the first \<open>@\<close> of the lowercased, trimmed reference.
\<close>

definition owner_segment :: "string \<Rightarrow> string" where
  "owner_segment ref =
     takeWhile (\<lambda>c. c \<noteq> CHR ''/'') (takeWhile (\<lambda>c. c \<noteq> CHR ''@'') (strip (lower ref)))"

section \<open>The environment and the effects of a run\<close>

text \<open>
  Every remote call is \<^verbatim>\<open>requests.get\<close> on one of five addresses: the rate-limit
  status, the organizations of the authenticated user, a page of the repositories of an
  organization, the listing of \<^verbatim>\<open>.github/workflows\<close> of a repository, and the raw
  content behind a download address.
\<close>

datatype request =
    RateLimit
  | UserOrgs
  | OrgRepos val int
  | Contents val val
  | Download val

datatype event = Call request | Sleep int

record response =
  status_code :: int
  response_text :: string

text \<open>
  What the program does not decide is a parameter: the credential, the answer of the
  remote side to a request (a function of the history of calls and sleeps so far, so that
  quota and content may change during a run; the HTTP library may also raise), the clock,
  and the JSON and YAML codecs (\<open>None\<close> when the decoder raises).
\<close>

record env =
  GITHUB_TOKEN :: "string option"
  http_get :: "event list \<Rightarrow> request \<Rightarrow> error + response"
  now :: "event list \<Rightarrow> int"
  json_loads :: "string \<Rightarrow> val option"
  json_dumps :: "val \<Rightarrow> string"
  yaml_safe_load :: "string \<Rightarrow> val option"

text \<open>
  The state of a run: the history of remote calls and sleeps, and the content of the two
  files \<^verbatim>\<open>github_orgs.json\<close> and \<^verbatim>\<open>third_party_actions_inventory.json\<close> (\<open>None\<close>
  when the file does not exist; a file that exists is taken to be readable, and both
  files to be writable). The field
  \<open>extracted\<close> is a history variable of the verification, not program state: it records,
  for each call of \<^verbatim>\<open>parse_workflow_file\<close> made by \<^verbatim>\<open>main\<close>, the organization, the
  repository name and the list of references the call returned. Console output is left
  out: printing is taken not to fail.
\<close>

record state =
  trace :: "event list"
  org_file :: "string option"
  results_file :: "string option"
  extracted :: "(val \<times> val \<times> val list) list"

text \<open>
  A computation ends by returning, by raising, or not at all: \<open>Timeout\<close> is the
  outcome of a pagination loop that has not ended within the fuel it was given.
\<close>

datatype 'a outcome = Return 'a | Raise error | Timeout

type_synonym 'a io = "state \<Rightarrow> 'a outcome \<times> state"

definition io_return :: "'a \<Rightarrow> 'a io" where
  "io_return x s = (Return x, s)"

definition io_raise :: "error \<Rightarrow> 'a io" where
  "io_raise e s = (Raise e, s)"

definition io_bind :: "'a io \<Rightarrow> ('a \<Rightarrow> 'b io) \<Rightarrow> 'b io" where
  "io_bind m f s =
     (case m s of
        (Return x, s') \<Rightarrow> f x s'
      | (Raise e, s') \<Rightarrow> (Raise e, s')
      | (Timeout, s') \<Rightarrow> (Timeout, s'))"

definition io_lift :: "error + 'a \<Rightarrow> 'a io" where
  "io_lift r = (case r of Inl e \<Rightarrow> io_raise e | Inr x \<Rightarrow> io_return x)"

text \<open>A \<^verbatim>\<open>for\<close> loop over a list that updates a loop-carried value.\<close>

fun for_each :: "'a list \<Rightarrow> ('a \<Rightarrow> 'b \<Rightarrow> 'b io) \<Rightarrow> 'b \<Rightarrow> 'b io" where
  "for_each [] body acc = io_return acc"
| "for_each (x # xs) body acc = io_bind (body x acc) (for_each xs body)"

definition requests_get :: "env \<Rightarrow> request \<Rightarrow> response io" where
  "requests_get env req s =
     (case http_get env (trace s) req of
        Inl e \<Rightarrow> (Raise e, s\<lparr>trace := trace s @ [Call req]\<rparr>)
      | Inr response \<Rightarrow> (Return response, s\<lparr>trace := trace s @ [Call req]\<rparr>))"

text \<open>
  \<^verbatim>\<open>time.sleep(d)\<close> for an integer \<open>d\<close>. The interpreter keeps the duration as a
  signed 64-bit count of nanoseconds: it refuses a negative duration with
  \<^verbatim>\<open>ValueError\<close> and a duration of more than \<open>max_sleep\<close> seconds with
  \<^verbatim>\<open>OverflowError\<close>, in both cases without sleeping.
\<close>

definition max_sleep :: int where
  "max_sleep = 9223372036"

definition time_sleep :: "int \<Rightarrow> unit io" where
  "time_sleep d s =
     (if d < 0 then (Raise ValueError, s)
      else if max_sleep < d then (Raise OverflowError, s)
      else (Return (), s\<lparr>trace := trace s @ [Sleep d]\<rparr>))"

definition time_time :: "env \<Rightarrow> int io" where
  "time_time env s = (Return (now env (trace s)), s)"

definition response_json :: "env \<Rightarrow> response \<Rightarrow> val io" where
  "response_json env response =
     (case json_loads env (response_text response) of
        None \<Rightarrow> io_raise DecodeError
      | Some v \<Rightarrow> io_return v)"

section \<open>RequestGate: \<^verbatim>\<open>check_rate_limit\<close> and \<^verbatim>\<open>enforce_rate_limit\<close>\<close>

text \<open>
  \<^verbatim>\<open>
  response = requests.get(url, headers=HEADERS)
  if response.status_code == 200:
      data = response.json()
      remaining = data["rate"]["remaining"]
      reset_time = data["rate"]["reset"]
      return remaining, reset_time
  else:
      return 0, 0
  \<close>
\<close>

definition check_rate_limit :: "env \<Rightarrow> (val \<times> val) io" where
  "check_rate_limit env =
     io_bind (requests_get env RateLimit) (\<lambda>response.
       if status_code response = 200 then
         io_bind (response_json env response) (\<lambda>data.
         io_bind (io_lift (getitem data ''rate'')) (\<lambda>rate.
         io_bind (io_lift (getitem rate ''remaining'')) (\<lambda>remaining.
         io_bind (io_lift (getitem data ''rate'')) (\<lambda>rate'.
         io_bind (io_lift (getitem rate' ''reset'')) (\<lambda>reset_time.
           io_return (remaining, reset_time))))))
       else io_return (VInt 0, VInt 0))"

text \<open>
  \<^verbatim>\<open>
  remaining, reset_time = check_rate_limit()
  if remaining == 0:
      sleep_time = max(reset_time - int(time.time()), 65)
      time.sleep(sleep_time)
  \<close>
\<close>

definition enforce_rate_limit :: "env \<Rightarrow> unit io" where
  "enforce_rate_limit env =
     io_bind (check_rate_limit env) (\<lambda>(remaining, reset_time).
       if eq_zero remaining then
         io_bind (time_time env) (\<lambda>t.
         io_bind (io_lift (minus_int reset_time t)) (\<lambda>d.
           time_sleep (max d 65)))
       else io_return ())"

section \<open>OrgRegistry: \<^verbatim>\<open>fetch_orgs\<close> and \<^verbatim>\<open>load_orgs\<close>\<close>

text \<open>
  \<^verbatim>\<open>
  response = requests.get(url, headers=HEADERS)
  if response.status_code == 200:
      orgs = [org["login"] for org in response.json()]
      with open(ORG_FILE, "w") as f:
          json.dump(orgs, f, indent=4)
      return orgs
  else:
      return []
  \<close>
\<close>

definition write_org_file :: "string \<Rightarrow> unit io" where
  "write_org_file content s = (Return (), s\<lparr>org_file := Some content\<rparr>)"

definition fetch_orgs :: "env \<Rightarrow> val io" where
  "fetch_orgs env =
     io_bind (requests_get env UserOrgs) (\<lambda>response.
       if status_code response = 200 then
         io_bind (response_json env response) (\<lambda>body.
         io_bind (io_lift (iter body)) (\<lambda>items.
         io_bind (io_lift (comprehension (\<lambda>org. getitem org ''login'') items)) (\<lambda>orgs.
         io_bind (write_org_file (json_dumps env (VList orgs))) (\<lambda>_.
           io_return (VList orgs)))))
       else io_return (VList []))"

text \<open>
  \<^verbatim>\<open>
  if not os.path.exists(ORG_FILE):
      return fetch_orgs()
  try:
      with open(ORG_FILE, "r") as f:
          return json.load(f)
  except Exception as e:
      return fetch_orgs()
  \<close>
\<close>

definition load_orgs :: "env \<Rightarrow> val io" where
  "load_orgs env s =
     (case org_file s of
        None \<Rightarrow> fetch_orgs env s
      | Some content \<Rightarrow>
          (case json_loads env content of
             None \<Rightarrow> fetch_orgs env s
           | Some v \<Rightarrow> (Return v, s)))"

section \<open>RepositoryEnumerator: \<^verbatim>\<open>fetch_all_repos\<close>\<close>

text \<open>
  \<^verbatim>\<open>
  repos = []
  page = 1
  while True:
      enforce_rate_limit()
      response = requests.get(url, headers=HEADERS, params=params)
      if response.status_code != 200:
          break
      batch = response.json()
      if not batch:
          break
      repos.extend(batch)
      page += 1
  return repos
  \<close>
  The loop has no bound of its own; the model gives it fuel, one unit for each page.
\<close>

fun fetch_all_repos_loop :: "env \<Rightarrow> nat \<Rightarrow> val \<Rightarrow> int \<Rightarrow> val list \<Rightarrow> val list io" where
  "fetch_all_repos_loop env 0 org page repos = (\<lambda>s. (Timeout, s))"
| "fetch_all_repos_loop env (Suc fuel) org page repos =
     io_bind (enforce_rate_limit env) (\<lambda>_.
     io_bind (requests_get env (OrgRepos org page)) (\<lambda>response.
       if status_code response \<noteq> 200 then io_return repos
       else
         io_bind (response_json env response) (\<lambda>batch.
           if \<not> truthy batch then io_return repos
           else
             io_bind (io_lift (iter batch)) (\<lambda>items.
               fetch_all_repos_loop env fuel org (page + 1) (repos @ items)))))"

definition fetch_all_repos :: "env \<Rightarrow> nat \<Rightarrow> val \<Rightarrow> val list io" where
  "fetch_all_repos env fuel org = fetch_all_repos_loop env fuel org 1 []"

section \<open>WorkflowLocator: \<^verbatim>\<open>fetch_workflow_files\<close>\<close>

record wf_file =
  wf_name :: val
  wf_path :: val
  wf_download_url :: val

text \<open>
  \<^verbatim>\<open>
  for item in directory_items:
      if item["type"] == "file":
          files.append({"name": item["name"], "path": item["path"],
                        "download_url": item["download_url"]})
  \<close>
\<close>

definition directory_item :: "val \<Rightarrow> wf_file list \<Rightarrow> error + wf_file list" where
  "directory_item item files =
     (case getitem item ''type'' of
        Inl e \<Rightarrow> Inl e
      | Inr ty \<Rightarrow>
          if ty = VStr ''file'' then
            (case getitem item ''name'' of
               Inl e \<Rightarrow> Inl e
             | Inr n \<Rightarrow>
                 (case getitem item ''path'' of
                    Inl e \<Rightarrow> Inl e
                  | Inr p \<Rightarrow>
                      (case getitem item ''download_url'' of
                         Inl e \<Rightarrow> Inl e
                       | Inr u \<Rightarrow>
                           Inr (files @ [\<lparr>wf_name = n, wf_path = p, wf_download_url = u\<rparr>]))))
          else Inr files)"

fun directory_items_loop :: "val list \<Rightarrow> wf_file list \<Rightarrow> error + wf_file list" where
  "directory_items_loop [] files = Inr files"
| "directory_items_loop (item # items) files =
     (case directory_item item files of
        Inl e \<Rightarrow> Inl e
      | Inr files' \<Rightarrow> directory_items_loop items files')"

text \<open>
  \<^verbatim>\<open>
  files = []
  enforce_rate_limit()
  response = requests.get(url, headers=HEADERS)
  if response.status_code == 404:
      return files
  if response.status_code != 200:
      return files
  directory_items = response.json()
  if isinstance(directory_items, list):
      for item in directory_items: ...
  return files
  \<close>
\<close>

definition fetch_workflow_files :: "env \<Rightarrow> val \<Rightarrow> val \<Rightarrow> wf_file list io" where
  "fetch_workflow_files env org repo_name =
     io_bind (enforce_rate_limit env) (\<lambda>_.
     io_bind (requests_get env (Contents org repo_name)) (\<lambda>response.
       if status_code response = 404 then io_return []
       else if status_code response \<noteq> 200 then io_return []
       else
         io_bind (response_json env response) (\<lambda>directory_items.
           (case directory_items of
              VList items \<Rightarrow> io_lift (directory_items_loop items [])
            | _ \<Rightarrow> io_return []))))"

section \<open>WorkflowParser: \<^verbatim>\<open>parse_workflow_file\<close>\<close>

text \<open>
  \<^verbatim>\<open>
  for step in steps:
      if isinstance(step, dict) and "uses" in step:
          uses_references.append(step["uses"])
  \<close>
\<close>

fun steps_loop :: "val list \<Rightarrow> val list \<Rightarrow> error + val list" where
  "steps_loop [] uses_references = Inr uses_references"
| "steps_loop (step # steps) uses_references =
     (case step of
        VDict kvs \<Rightarrow>
          (if lookup kvs (VStr ''uses'') \<noteq> None then
             (case getitem step ''uses'' of
                Inl e \<Rightarrow> Inl e
              | Inr u \<Rightarrow> steps_loop steps (uses_references @ [u]))
           else steps_loop steps uses_references)
      | _ \<Rightarrow> steps_loop steps uses_references)"

text \<open>
  \<^verbatim>\<open>
  for job_name, job_data in jobs.items():
      steps = job_data.get("steps", [])
      if isinstance(steps, list):
          for step in steps: ...
  \<close>
\<close>

fun jobs_loop :: "(val \<times> val) list \<Rightarrow> val list \<Rightarrow> error + val list" where
  "jobs_loop [] uses_references = Inr uses_references"
| "jobs_loop ((job_name, job_data) # jobs) uses_references =
     (case get job_data ''steps'' (VList []) of
        Inl e \<Rightarrow> Inl e
      | Inr (VList steps) \<Rightarrow>
          (case steps_loop steps uses_references of
             Inl e \<Rightarrow> Inl e
           | Inr uses_references' \<Rightarrow> jobs_loop jobs uses_references')
      | Inr _ \<Rightarrow> jobs_loop jobs uses_references)"

text \<open>
  The part of \<^verbatim>\<open>parse_workflow_file\<close> after the download: the decoder runs inside
  \<^verbatim>\<open>try\<close>, the traversal of the decoded document does not.
  \<^verbatim>\<open>
  try:
      content = response.text
      workflow_data = yaml.safe_load(content)
  except Exception as e:
      return []
  if not isinstance(workflow_data, dict):
      return []
  uses_references = []
  jobs = workflow_data.get("jobs", {})
  if isinstance(jobs, dict):
      for job_name, job_data in jobs.items(): ...
  return uses_references
  \<close>
\<close>

definition parse_content :: "env \<Rightarrow> string \<Rightarrow> error + val list" where
  "parse_content env content =
     (case yaml_safe_load env content of
        None \<Rightarrow> Inr []
      | Some workflow_data \<Rightarrow>
          if \<not> isinstance_dict workflow_data then Inr []
          else
            (case get workflow_data ''jobs'' (VDict []) of
               Inl e \<Rightarrow> Inl e
             | Inr (VDict jobs) \<Rightarrow> jobs_loop jobs []
             | Inr _ \<Rightarrow> Inr []))"

text \<open>
  \<^verbatim>\<open>
  enforce_rate_limit()
  response = requests.get(download_url, headers=HEADERS)
  if response.status_code != 200:
      return []
  \<close>
  and then the part above.
\<close>

definition parse_workflow_file :: "env \<Rightarrow> val \<Rightarrow> val list io" where
  "parse_workflow_file env download_url =
     io_bind (enforce_rate_limit env) (\<lambda>_.
     io_bind (requests_get env (Download download_url)) (\<lambda>response.
       if status_code response \<noteq> 200 then io_return []
       else io_lift (parse_content env (response_text response))))"

section \<open>InventoryAggregator: \<^verbatim>\<open>main\<close>\<close>

record entry =
  e_workflow_file :: val
  e_uses_reference :: val
  e_is_third_party :: bool

type_synonym inventory = "(val \<times> entry list) list"

type_synonym report = "(val \<times> inventory) list"

text \<open>
  \<^verbatim>\<open>
  for action_ref in uses_list:
      data_entry = {"workflow_file": wf["path"], "uses_reference": action_ref,
                    "is_third_party": is_third_party(action_ref, my_orgs_lower)}
      repo_inventory.append(data_entry)
  \<close>
\<close>

fun uses_loop :: "string list \<Rightarrow> val \<Rightarrow> val list \<Rightarrow> entry list \<Rightarrow> error + entry list" where
  "uses_loop my_orgs_lower path [] repo_inventory = Inr repo_inventory"
| "uses_loop my_orgs_lower path (action_ref # uses_list) repo_inventory =
     (case is_third_party action_ref my_orgs_lower of
        Inl e \<Rightarrow> Inl e
      | Inr flag \<Rightarrow>
          uses_loop my_orgs_lower path uses_list
            (repo_inventory @
               [\<lparr>e_workflow_file = path, e_uses_reference = action_ref,
                 e_is_third_party = flag\<rparr>]))"

definition note_extracted :: "val \<Rightarrow> val \<Rightarrow> val list \<Rightarrow> unit io" where
  "note_extracted org repo_name uses_list s =
     (Return (), s\<lparr>extracted := extracted s @ [(org, repo_name, uses_list)]\<rparr>)"

text \<open>
  The body of \<^verbatim>\<open>for wf in workflow_files\<close>:
  \<^verbatim>\<open>
  uses_list = parse_workflow_file(wf["download_url"])
  for action_ref in uses_list: ...
  \<close>
  with the history variable updated between the two.
\<close>

definition workflow_body ::
  "env \<Rightarrow> string list \<Rightarrow> val \<Rightarrow> val \<Rightarrow> wf_file \<Rightarrow> entry list \<Rightarrow> entry list io" where
  "workflow_body env my_orgs_lower org repo_name wfile repo_inventory =
     io_bind (parse_workflow_file env (wf_download_url wfile)) (\<lambda>uses_list.
     io_bind (note_extracted org repo_name uses_list) (\<lambda>_.
       io_lift (uses_loop my_orgs_lower (wf_path wfile) uses_list repo_inventory)))"

text \<open>
  The body of \<^verbatim>\<open>for repo in repos\<close>:
  \<^verbatim>\<open>
  repo_name = repo["name"]
  workflow_files = fetch_workflow_files(org, repo_name)
  if not workflow_files:
      continue
  repo_inventory = []
  for wf in workflow_files: ...
  if repo_inventory:
      org_results[repo_name] = repo_inventory
  \<close>
\<close>

definition repo_body ::
  "env \<Rightarrow> string list \<Rightarrow> val \<Rightarrow> val \<Rightarrow> inventory \<Rightarrow> inventory io" where
  "repo_body env my_orgs_lower org repo org_results =
     io_bind (io_lift (getitem repo ''name'')) (\<lambda>repo_name.
     io_bind (fetch_workflow_files env org repo_name) (\<lambda>workflow_files.
       if workflow_files = [] then io_return org_results
       else
         io_bind (for_each workflow_files (workflow_body env my_orgs_lower org repo_name) [])
           (\<lambda>repo_inventory.
              if repo_inventory \<noteq> [] then io_lift (setitem org_results repo_name repo_inventory)
              else io_return org_results)))"

text \<open>
  The body of \<^verbatim>\<open>for org in orgs\<close>:
  \<^verbatim>\<open>
  repos = fetch_all_repos(org)
  if not repos:
      continue
  org_results = {}
  for repo in repos: ...
  if org_results:
      results[org] = org_results
  \<close>
\<close>

definition org_body :: "env \<Rightarrow> nat \<Rightarrow> string list \<Rightarrow> val \<Rightarrow> report \<Rightarrow> report io" where
  "org_body env fuel my_orgs_lower org results =
     io_bind (fetch_all_repos env fuel org) (\<lambda>repos.
       if repos = [] then io_return results
       else
         io_bind (for_each repos (repo_body env my_orgs_lower org) []) (\<lambda>org_results.
           if org_results \<noteq> [] then io_lift (setitem results org org_results)
           else io_return results))"

text \<open>The crawl loop of \<^verbatim>\<open>main\<close>, from \<^verbatim>\<open>results = {}\<close> to the end of
  \<^verbatim>\<open>for org in orgs\<close>.\<close>

definition crawl :: "env \<Rightarrow> nat \<Rightarrow> string list \<Rightarrow> val list \<Rightarrow> report io" where
  "crawl env fuel my_orgs_lower orgs = for_each orgs (org_body env fuel my_orgs_lower) []"

text \<open>The report as the value that \<^verbatim>\<open>json.dump\<close> writes.\<close>

definition entry_val :: "entry \<Rightarrow> val" where
  "entry_val e =
     VDict [(VStr ''workflow_file'', e_workflow_file e),
            (VStr ''uses_reference'', e_uses_reference e),
            (VStr ''is_third_party'', VBool (e_is_third_party e))]"

definition report_val :: "report \<Rightarrow> val" where
  "report_val results =
     VDict (map (\<lambda>(org, org_results).
                   (org, VDict (map (\<lambda>(repo_name, repo_inventory).
                                       (repo_name, VList (map entry_val repo_inventory)))
                                    org_results)))
                results)"

definition write_results_file :: "string \<Rightarrow> unit io" where
  "write_results_file content s = (Return (), s\<lparr>results_file := Some content\<rparr>)"

text \<open>
  \<^verbatim>\<open>
  if not GITHUB_TOKEN:
      sys.exit(1)
  orgs = load_orgs()
  if not orgs:
      sys.exit(1)
  my_orgs_lower = [o.lower() for o in orgs]
  results = {}
  for org in orgs: ...
  with open(RESULTS_FILE, "w") as f:
      json.dump(results, f, indent=4)
  \<close>
  The summary that follows only prints.
\<close>

definition main :: "env \<Rightarrow> nat \<Rightarrow> unit io" where
  "main env fuel =
     (if GITHUB_TOKEN env = None \<or> GITHUB_TOKEN env = Some [] then io_raise (SystemExit 1)
      else
        io_bind (load_orgs env) (\<lambda>orgs.
          if \<not> truthy orgs then io_raise (SystemExit 1)
          else
            io_bind (io_lift (iter orgs)) (\<lambda>org_list.
            io_bind (io_lift (comprehension lower_val org_list)) (\<lambda>my_orgs_lower.
            io_bind (crawl env fuel my_orgs_lower org_list) (\<lambda>results.
              write_results_file (json_dumps env (report_val results)))))))"

text \<open>
  The exit status of the process: 0 when \<^verbatim>\<open>main\<close> returns, the argument of
  \<^verbatim>\<open>sys.exit\<close>, and 1 for an exception that nothing catches. A run that does not end
  has none.
\<close>

fun exit_status :: "unit outcome \<Rightarrow> int option" where
  "exit_status (Return u) = Some 0"
| "exit_status (Raise (SystemExit n)) = Some n"
| "exit_status (Raise e) = Some 1"
| "exit_status Timeout = None"

definition initial_state :: "string option \<Rightarrow> state" where
  "initial_state cache =
     \<lparr>trace = [], org_file = cache, results_file = None, extracted = []\<rparr>"

section \<open>The parser's result as the specification words it\<close>

text \<open>
  The specification describes the result of parsing declaratively: the value of the
  \<open>uses\<close> field of every step that is a mapping with such a field, jobs in iteration order
  and steps in sequence order. These definitions follow those words; the loops above
  follow the code.
\<close>

fun uses_of :: "val \<Rightarrow> val option" where
  "uses_of (VDict kvs) = lookup kvs (VStr ''uses'')"
| "uses_of v = None"

definition carries_uses :: "val \<Rightarrow> bool" where
  "carries_uses step = (uses_of step \<noteq> None)"

fun steps_of :: "val \<Rightarrow> val list option" where
  "steps_of (VDict kvs) =
     (case lookup kvs (VStr ''steps'') of Some (VList steps) \<Rightarrow> Some steps | _ \<Rightarrow> None)"
| "steps_of v = None"

fun jobs_of :: "val \<Rightarrow> (val \<times> val) list option" where
  "jobs_of (VDict kvs) =
     (case lookup kvs (VStr ''jobs'') of Some (VDict jobs) \<Rightarrow> Some jobs | _ \<Rightarrow> None)"
| "jobs_of v = None"

definition job_steps :: "val \<Rightarrow> val list" where
  "job_steps job = (case steps_of job of None \<Rightarrow> [] | Some steps \<Rightarrow> steps)"

definition all_steps :: "(val \<times> val) list \<Rightarrow> val list" where
  "all_steps jobs = concat (map (\<lambda>job. job_steps (snd job)) jobs)"

definition has_steps :: "val \<times> val \<Rightarrow> bool" where
  "has_steps job = (steps_of (snd job) \<noteq> None)"

section \<open>Observations of a run\<close>

text \<open>The sleeps among the events of a run.\<close>

fun is_sleep :: "event \<Rightarrow> bool" where
  "is_sleep (Sleep d) = True"
| "is_sleep (Call req) = False"

text \<open>A computation is stable for an observation of the state when running it never
  changes what is observed.\<close>

definition stable :: "(state \<Rightarrow> 'x) \<Rightarrow> 'a io \<Rightarrow> bool" where
  "stable obs m = (\<forall>s. obs (snd (m s)) = obs s)"


text \<open>The report has an entry for a repository of an organization.\<close>

definition has_key :: "report \<Rightarrow> val \<Rightarrow> val \<Rightarrow> bool" where
  "has_key results org repo_name =
     (case lookup results org of
        None \<Rightarrow> False
      | Some org_results \<Rightarrow> lookup org_results repo_name \<noteq> None)"

text \<open>Some call of the parser for a repository of an organization returned at least one
  reference. Organizations and repository names are compared as dictionary keys.\<close>

definition hit :: "val \<Rightarrow> val \<Rightarrow> val \<times> val \<times> val list \<Rightarrow> bool" where
  "hit org repo_name e =
     (py_key (fst e) = py_key org \<and> py_key (fst (snd e)) = py_key repo_name
      \<and> snd (snd e) \<noteq> [])"

definition extracted_some :: "state \<Rightarrow> val \<Rightarrow> val \<Rightarrow> bool" where
  "extracted_some s org repo_name = list_ex (hit org repo_name) (extracted s)"

text \<open>Some call of the parser for some repository of an organization returned at least
  one reference.\<close>

definition extracted_any :: "state \<Rightarrow> val \<Rightarrow> bool" where
  "extracted_any s org =
     list_ex (\<lambda>e. py_key (fst e) = py_key org \<and> snd (snd e) \<noteq> []) (extracted s)"

text \<open>No entry of a report or of an inventory is empty.\<close>

definition dense :: "(val \<times> 'a list) list \<Rightarrow> bool" where
  "dense d = list_all (\<lambda>kv. snd kv \<noteq> []) d"

definition sparse :: "report \<Rightarrow> bool" where
  "sparse results = (dense results \<and> list_all (\<lambda>kv. dense (snd kv)) results)"

text \<open>A computation yields \<open>Q\<close> when, from any state, it returns a value that satisfies
  \<open>Q\<close>: it neither raises nor runs out of fuel.\<close>

definition yields :: "('a \<Rightarrow> bool) \<Rightarrow> 'a io \<Rightarrow> bool" where
  "yields Q m = (\<forall>s. \<exists>x s'. m s = (Return x, s') \<and> Q x)"

text \<open>
  Reading a history from the left: the gate is open after a quota check, stays open over
  the sleep that may follow the check, and is closed again by any other call. A request
  of the crawl is in order when it finds the gate open.
\<close>

fun gate :: "bool \<Rightarrow> event list \<Rightarrow> bool" where
  "gate opened [] = opened"
| "gate opened (Sleep d # es) = gate opened es"
| "gate opened (Call RateLimit # es) = gate True es"
| "gate opened (Call req # es) = gate False es"

fun gated :: "bool \<Rightarrow> event list \<Rightarrow> bool" where
  "gated opened [] = True"
| "gated opened (Sleep d # es) = gated opened es"
| "gated opened (Call RateLimit # es) = gated True es"
| "gated opened (Call UserOrgs # es) = gated False es"
| "gated opened (Call req # es) = (opened \<and> gated False es)"

text \<open>A computation adds to the history only events in order, whatever came before.\<close>

definition adds_gated :: "'a io \<Rightarrow> bool" where
  "adds_gated m =
     (\<forall>s. \<exists>es. trace (snd (m s)) = trace s @ es \<and> (\<forall>opened. gated opened es))"

section \<open>Well-shaped answers\<close>

text \<open>
  The shape that a successful answer must have for the code that reads it not to raise.
  An answer with another status than 200 is a listing failure and needs no shape; for
  the quota check it counts as a quota of zero with reset time 0, and the sleep that
  follows must be one that can be taken.
\<close>

text \<open>The sleep that a quota of zero asks for can be taken, at whatever moment of the
  run the clock is read: the reset time is a number, at most \<open>max_sleep\<close> seconds ahead.\<close>

definition sleepable :: "env \<Rightarrow> val \<Rightarrow> bool" where
  "sleepable env reset_time =
     (\<forall>h. case minus_int reset_time (now env h) of
            Inl e \<Rightarrow> False
          | Inr d \<Rightarrow> d \<le> max_sleep)"

fun is_str :: "val \<Rightarrow> bool" where
  "is_str (VStr s) = True"
| "is_str v = False"

definition quota_ok :: "env \<Rightarrow> response \<Rightarrow> bool" where
  "quota_ok env resp =
     (if status_code resp \<noteq> 200 then sleepable env (VInt 0)
      else
        (case json_loads env (response_text resp) of
           None \<Rightarrow> False
         | Some data \<Rightarrow>
             (case getitem data ''rate'' of
                Inl e \<Rightarrow> False
              | Inr rate \<Rightarrow>
                  (case getitem rate ''remaining'' of
                     Inl e \<Rightarrow> False
                   | Inr remaining \<Rightarrow>
                       (case getitem rate ''reset'' of
                          Inl e \<Rightarrow> False
                        | Inr reset_time \<Rightarrow>
                            \<not> eq_zero remaining \<or> sleepable env reset_time)))))"

definition repo_ok :: "val \<Rightarrow> bool" where
  "repo_ok repo = (case getitem repo ''name'' of Inl e \<Rightarrow> False | Inr n \<Rightarrow> hashable n)"

definition page_ok :: "env \<Rightarrow> response \<Rightarrow> bool" where
  "page_ok env resp =
     (status_code resp \<noteq> 200
      \<or> (case json_loads env (response_text resp) of
            None \<Rightarrow> False
          | Some batch \<Rightarrow>
              \<not> truthy batch
              \<or> (case iter batch of Inl e \<Rightarrow> False | Inr items \<Rightarrow> list_all repo_ok items)))"

definition item_ok :: "val \<Rightarrow> bool" where
  "item_ok item =
     (case getitem item ''type'' of
        Inl e \<Rightarrow> False
      | Inr ty \<Rightarrow>
          ty \<noteq> VStr ''file''
          \<or> (case getitem item ''name'' of
                Inl e \<Rightarrow> False
              | Inr n \<Rightarrow>
                  (case getitem item ''path'' of
                     Inl e \<Rightarrow> False
                   | Inr p \<Rightarrow>
                       (case getitem item ''download_url'' of
                          Inl e \<Rightarrow> False
                        | Inr u \<Rightarrow> True))))"

definition listing_ok :: "env \<Rightarrow> response \<Rightarrow> bool" where
  "listing_ok env resp =
     (status_code resp \<noteq> 200
      \<or> (case json_loads env (response_text resp) of
            None \<Rightarrow> False
          | Some (VList items) \<Rightarrow> list_all item_ok items
          | Some _ \<Rightarrow> True))"

definition workflow_ok :: "env \<Rightarrow> response \<Rightarrow> bool" where
  "workflow_ok env resp =
     (status_code resp \<noteq> 200
      \<or> (case parse_content env (response_text resp) of
            Inl e \<Rightarrow> False
          | Inr uses \<Rightarrow> list_all is_str uses))"

fun answer_ok :: "env \<Rightarrow> request \<Rightarrow> response \<Rightarrow> bool" where
  "answer_ok env RateLimit resp = quota_ok env resp"
| "answer_ok env UserOrgs resp = True"
| "answer_ok env (OrgRepos org page) resp = page_ok env resp"
| "answer_ok env (Contents org repo_name) resp = listing_ok env resp"
| "answer_ok env (Download url) resp = workflow_ok env resp"

definition well_behaved :: "env \<Rightarrow> bool" where
  "well_behaved env =
     (\<forall>h req. case http_get env h req of Inl e \<Rightarrow> False | Inr resp \<Rightarrow> answer_ok env req resp)"



section \<open>Example environments\<close>

text \<open>
  A small remote side for concrete runs. Payloads are named by short texts, and the
  example codecs decode each name to the value it stands for: the organization
  \<open>acme\<close> with one repository \<open>api\<close>, whose workflow \<open>ci.yml\<close> has a checkout step, a shell
  step and a step using \<open>randomuser/cool-action@v1\<close>.
\<close>

definition demo_json :: "string \<Rightarrow> val option" where
  "demo_json =
     map_of
       [(''quota'',
           VDict [(VStr ''rate'',
                   VDict [(VStr ''remaining'', VInt 4999), (VStr ''reset'', VInt 1700000100)])]),
        (''exhausted'',
           VDict [(VStr ''rate'',
                   VDict [(VStr ''remaining'', VInt 0), (VStr ''reset'', VInt 1700000100)])]),
        (''logins'', VList [VDict [(VStr ''login'', VStr ''acme'')]]),
        (''cache'', VList [VStr ''acme'']),
        (''twice'', VList [VStr ''acme'', VStr ''acme'']),
        (''object'', VDict [(VStr ''acme'', VInt 1)]),
        (''page'', VList [VDict [(VStr ''name'', VStr ''api'')]]),
        (''later'', VList [VDict [(VStr ''name'', VStr ''web'')]]),
        (''five'',
           VList [VDict [(VStr ''name'', VStr ''api'')], VDict [(VStr ''name'', VStr ''web'')],
                  VDict [(VStr ''name'', VStr ''cli'')], VDict [(VStr ''name'', VStr ''docs'')],
                  VDict [(VStr ''name'', VStr ''infra'')]]),
        (''nothing'', VList []),
        (''listing'',
           VList [VDict [(VStr ''type'', VStr ''file''), (VStr ''name'', VStr ''ci.yml''),
                         (VStr ''path'', VStr ''.github/workflows/ci.yml''),
                         (VStr ''download_url'', VStr ''raw/ci.yml'')]])]"

definition demo_yaml :: "string \<Rightarrow> val option" where
  "demo_yaml =
     map_of
       [(''ci'',
           VDict [(VStr ''name'', VStr ''CI''),
                  (VStr ''jobs'',
                   VDict [(VStr ''build'',
                           VDict [(VStr ''steps'',
                                   VList [VDict [(VStr ''uses'', VStr ''actions/checkout@v3'')],
                                          VDict [(VStr ''run'', VStr ''make'')],
                                          VDict [(VStr ''uses'',
                                                  VStr ''randomuser/cool-action@v1'')]])])])]),
        (''jobs: {build: null}'',
           VDict [(VStr ''jobs'', VDict [(VStr ''build'', VNone)])])]"

definition demo_get :: "event list \<Rightarrow> request \<Rightarrow> error + response" where
  "demo_get h req =
     Inr (case req of
            RateLimit \<Rightarrow> \<lparr>status_code = 200, response_text = ''quota''\<rparr>
          | UserOrgs \<Rightarrow> \<lparr>status_code = 200, response_text = ''logins''\<rparr>
          | OrgRepos org page \<Rightarrow>
              \<lparr>status_code = 200,
               response_text = (if page = 1 then ''page'' else ''nothing'')\<rparr>
          | Contents org repo_name \<Rightarrow> \<lparr>status_code = 200, response_text = ''listing''\<rparr>
          | Download url \<Rightarrow> \<lparr>status_code = 200, response_text = ''ci''\<rparr>)"

definition demo_env :: env where
  "demo_env =
     \<lparr>GITHUB_TOKEN = Some ''token'', http_get = demo_get, now = (\<lambda>h. 1700000000),
      json_loads = demo_json, json_dumps = (\<lambda>v. ''report''), yaml_safe_load = demo_yaml\<rparr>"

text \<open>The same remote side serving a workflow whose job \<open>build\<close> is null.\<close>

definition null_job_get :: "event list \<Rightarrow> request \<Rightarrow> error + response" where
  "null_job_get h req =
     (case req of
        Download url \<Rightarrow> Inr \<lparr>status_code = 200, response_text = ''jobs: {build: null}''\<rparr>
      | _ \<Rightarrow> demo_get h req)"

definition null_job_env :: env where
  "null_job_env = demo_env\<lparr>http_get := null_job_get\<rparr>"

text \<open>The jobs of the example workflow \<open>ci\<close>.\<close>

definition demo_jobs :: "(val \<times> val) list" where
  "demo_jobs =
     [(VStr ''build'',
       VDict [(VStr ''steps'',
               VList [VDict [(VStr ''uses'', VStr ''actions/checkout@v3'')],
                      VDict [(VStr ''run'', VStr ''make'')],
                      VDict [(VStr ''uses'', VStr ''randomuser/cool-action@v1'')]])])]"

text \<open>The same remote side with the quota always reported as used up.\<close>

definition exhausted_get :: "event list \<Rightarrow> request \<Rightarrow> error + response" where
  "exhausted_get h req =
     (case req of
        RateLimit \<Rightarrow> Inr \<lparr>status_code = 200, response_text = ''exhausted''\<rparr>
      | _ \<Rightarrow> demo_get h req)"

definition exhausted_env :: env where
  "exhausted_env = demo_env\<lparr>http_get := exhausted_get\<rparr>"



text \<open>A remote side whose organization changes during the run: the first page of
  repositories lists \<open>api\<close> until it has been asked for once, and \<open>web\<close> afterwards.\<close>

definition shifting_get :: "event list \<Rightarrow> request \<Rightarrow> error + response" where
  "shifting_get h req =
     (case req of
        OrgRepos org page \<Rightarrow>
          Inr \<lparr>status_code = 200,
               response_text =
                 (if page \<noteq> 1 then ''nothing''
                  else if Call (OrgRepos org 1) \<in> set h then ''later'' else ''page'')\<rparr>
      | _ \<Rightarrow> demo_get h req)"

definition shifting_env :: env where
  "shifting_env = demo_env\<lparr>http_get := shifting_get\<rparr>"

text \<open>The entries of the example workflow.\<close>

definition demo_entries :: "entry list" where
  "demo_entries =
     [\<lparr>e_workflow_file = VStr ''.github/workflows/ci.yml'',
       e_uses_reference = VStr ''actions/checkout@v3'', e_is_third_party = False\<rparr>,
      \<lparr>e_workflow_file = VStr ''.github/workflows/ci.yml'',
       e_uses_reference = VStr ''randomuser/cool-action@v1'', e_is_third_party = True\<rparr>]"




text \<open>
  A remote side with every case of the report at once: \<open>acme\<close> has the repository \<open>api\<close>
  with the example workflow, \<open>web\<close> without a workflows directory and \<open>docs\<close> whose only
  workflow has no \<open>uses\<close> step; \<open>umbrella\<close> has no repository.
\<close>

definition mixed_json :: "string \<Rightarrow> val option" where
  "mixed_json content =
     (if content = ''two'' then Some (VList [VStr ''acme'', VStr ''umbrella''])
      else if content = ''three'' then
        Some (VList [VDict [(VStr ''name'', VStr ''api'')], VDict [(VStr ''name'', VStr ''web'')],
                     VDict [(VStr ''name'', VStr ''docs'')]])
      else if content = ''notes'' then
        Some (VList [VDict [(VStr ''type'', VStr ''file''), (VStr ''name'', VStr ''lint.yml''),
                            (VStr ''path'', VStr ''.github/workflows/lint.yml''),
                            (VStr ''download_url'', VStr ''raw/lint.yml'')]])
      else demo_json content)"

definition mixed_yaml :: "string \<Rightarrow> val option" where
  "mixed_yaml content =
     (if content = ''plain'' then
        Some (VDict [(VStr ''jobs'',
                      VDict [(VStr ''lint'',
                              VDict [(VStr ''steps'',
                                      VList [VDict [(VStr ''run'', VStr ''make lint'')]])])])])
      else demo_yaml content)"

definition mixed_get :: "event list \<Rightarrow> request \<Rightarrow> error + response" where
  "mixed_get h req =
     (case req of
        OrgRepos org page \<Rightarrow>
          Inr \<lparr>status_code = 200,
               response_text =
                 (if org = VStr ''acme'' \<and> page = 1 then ''three'' else ''nothing'')\<rparr>
      | Contents org repo_name \<Rightarrow>
          Inr (if repo_name = VStr ''api'' then \<lparr>status_code = 200, response_text = ''listing''\<rparr>
               else if repo_name = VStr ''docs''
               then \<lparr>status_code = 200, response_text = ''notes''\<rparr>
               else \<lparr>status_code = 404, response_text = ''missing''\<rparr>)
      | Download url \<Rightarrow>
          Inr \<lparr>status_code = 200,
               response_text = (if url = VStr ''raw/ci.yml'' then ''ci'' else ''plain'')\<rparr>
      | _ \<Rightarrow> demo_get h req)"

definition mixed_env :: env where
  "mixed_env =
     demo_env\<lparr>http_get := mixed_get, json_loads := mixed_json, yaml_safe_load := mixed_yaml\<rparr>"

text \<open>The same remote side reporting no quota left and a reset time in milliseconds.\<close>

definition far_json :: "string \<Rightarrow> val option" where
  "far_json content =
     (if content = ''far'' then
        Some (VDict [(VStr ''rate'',
                      VDict [(VStr ''remaining'', VInt 0), (VStr ''reset'', VInt 1700000100000)])])
      else demo_json content)"

definition far_get :: "event list \<Rightarrow> request \<Rightarrow> error + response" where
  "far_get h req =
     (case req of
        RateLimit \<Rightarrow> Inr \<lparr>status_code = 200, response_text = ''far''\<rparr>
      | _ \<Rightarrow> demo_get h req)"

definition far_env :: env where
  "far_env = demo_env\<lparr>http_get := far_get, json_loads := far_json\<rparr>"

section \<open>Properties\<close>

subsection \<open>Strings and the classifier\<close>

lemma split_nonempty: "split sep s \<noteq> []"
  by (induction s) (auto split: list.splits)

lemma hd_split: "hd (split sep s) = takeWhile (\<lambda>c. c \<noteq> sep) s"
  by (induction s) (auto split: list.splits simp: split_nonempty)

lemma split_first: "\<exists>segs. split sep s = takeWhile (\<lambda>c. c \<noteq> sep) s # segs"
  using hd_split [of sep s] split_nonempty [of sep s]
  by (cases "split sep s") auto

text \<open>
  Claim C1. For every reference string and every list of lowercased organization names,
  \<open>is_third_party\<close> answers first-party (\<open>False\<close>) exactly when the lowercased, trimmed
  reference starts with \<open>actions/\<close>, or its owner segment is \<open>docker\<close>, or its owner
  segment is one of the organization names; in every other case it answers third-party
  (\<open>True\<close>).
\<close>

theorem is_third_party_iff:
  "is_third_party (VStr ref) own_orgs =
     Inr (\<not> (startswith (strip (lower ref)) ''actions/''
              \<or> owner_segment ref = ''docker''
              \<or> owner_segment ref \<in> set own_orgs))"
proof -
  let ?r = "strip (lower ref)"
  obtain rest where at: "split (CHR ''@'') ?r = takeWhile (\<lambda>c. c \<noteq> CHR ''@'') ?r # rest"
    using split_first by blast
  obtain more where
    slash: "split (CHR ''/'') (takeWhile (\<lambda>c. c \<noteq> CHR ''@'') ?r) = owner_segment ref # more"
    unfolding owner_segment_def using split_first by blast
  show ?thesis
    by (auto simp add: is_third_party_def Let_def at slash)
qed

theorem is_third_party_iff_witness:
  "is_third_party (VStr ''myorg/custom-action@v3'') [''myorg''] = Inr False
   \<and> is_third_party (VStr ''myorg/custom-action@v3'') [''otherorg''] = Inr True
   \<and> is_third_party (VStr ''  Actions/Checkout@v4 '') [''otherorg''] = Inr False
   \<and> is_third_party (VStr ''docker/build-push-action@v5'') [''otherorg''] = Inr False"
proof -
  have a: "startswith (strip (lower ''myorg/custom-action@v3'')) ''actions/'' = False"
    by code_simp
  have b: "owner_segment ''myorg/custom-action@v3'' = ''myorg''"
    by code_simp
  have c: "startswith (strip (lower ''  Actions/Checkout@v4 '')) ''actions/'' = True"
    by code_simp
  have d: "owner_segment ''docker/build-push-action@v5'' = ''docker''"
    by code_simp
  show ?thesis
    using is_third_party_iff [of "''myorg/custom-action@v3''" "[''myorg'']"]
      is_third_party_iff [of "''myorg/custom-action@v3''" "[''otherorg'']"]
      is_third_party_iff [of "''  Actions/Checkout@v4 ''" "[''otherorg'']"]
      is_third_party_iff [of "''docker/build-push-action@v5''" "[''otherorg'']"]
    by (simp add: a b c d)
qed

text \<open>
  Claim C4. A reference from which no owner segment can be extracted (the empty string, a
  string of white space, a reference that begins with \<open>@\<close>) should be answered
  first-party. The code does not do so: \<^verbatim>\<open>split\<close> never returns an empty list, so the
  guard \<^verbatim>\<open>if not parts\<close> never fires, the owner is the empty string, and the reference
  is answered third-party unless the empty string is among the organization names.
\<close>

theorem is_third_party_no_owner:
  "is_third_party (VStr '''') [''acme''] = Inr True
   \<and> is_third_party (VStr ''   '') [''acme''] = Inr True
   \<and> is_third_party (VStr ''@v1'') [''acme''] = Inr True"
  by code_simp

subsection \<open>The parser\<close>

lemma steps_loop_eq: "steps_loop steps acc = Inr (acc @ List.map_filter uses_of steps)"
proof (induction steps arbitrary: acc)
  case Nil
  show ?case by simp
next
  case (Cons step steps)
  show ?case
  proof (cases step)
    case (VDict kvs)
    then show ?thesis
      using Cons.IH by (cases "lookup kvs (VStr ''uses'')") simp_all
  qed (simp_all add: Cons.IH)
qed

lemma map_filter_append:
  "List.map_filter f (xs @ ys) = List.map_filter f xs @ List.map_filter f ys"
  by (induction xs) (auto split: option.splits)

lemma jobs_loop_eq:
  "\<forall>job \<in> set jobs. has_steps job \<Longrightarrow>
   jobs_loop jobs acc = Inr (acc @ List.map_filter uses_of (all_steps jobs))"
proof (induction jobs arbitrary: acc)
  case Nil
  show ?case by (simp add: all_steps_def)
next
  case (Cons job jobs)
  obtain job_name job_data where j: "job = (job_name, job_data)"
    by (cases job)
  from Cons.prems j obtain steps where "steps_of job_data = Some steps"
    by (auto simp: has_steps_def)
  then obtain kvs where
    k: "job_data = VDict kvs" "lookup kvs (VStr ''steps'') = Some (VList steps)"
    by (cases job_data) (auto split: option.splits val.splits)
  have "\<forall>job \<in> set jobs. has_steps job"
    using Cons.prems by simp
  from Cons.IH [OF this] show ?case
    by (simp add: j k steps_loop_eq all_steps_def job_steps_def map_filter_append)
qed

lemma length_map_filter:
  "length (List.map_filter f xs) = length (filter (\<lambda>x. f x \<noteq> None) xs)"
  by (induction xs) (auto split: option.splits)

lemma parse_content_eq:
  assumes "yaml_safe_load env content = Some doc"
    and "jobs_of doc = Some jobs"
    and "\<forall>job \<in> set jobs. has_steps job"
  shows "parse_content env content = Inr (List.map_filter uses_of (all_steps jobs))"
proof -
  from assms(2) obtain top where
    "doc = VDict top" "lookup top (VStr ''jobs'') = Some (VDict jobs)"
    by (cases doc) (auto split: option.splits val.splits)
  then show ?thesis
    using assms(1) jobs_loop_eq [OF assms(3), of "[]"]
    by (simp add: parse_content_def)
qed

subsection \<open>Running computations\<close>

lemma io_bind_Return: "m s = (Return x, s') \<Longrightarrow> io_bind m f s = f x s'"
  by (simp add: io_bind_def)

lemma requests_get_Inr:
  "http_get env (trace s) req = Inr response \<Longrightarrow>
   requests_get env req s = (Return response, s\<lparr>trace := trace s @ [Call req]\<rparr>)"
  by (simp add: requests_get_def)

text \<open>
  Claim C2. For a workflow document that decodes to a mapping whose \<open>jobs\<close> value is a
  mapping of jobs, each with a \<open>steps\<close> sequence, \<open>parse_workflow_file\<close> returns exactly
  the \<open>uses\<close> values of the steps that are mappings with a \<open>uses\<close> key, one for each such
  step and none for the others, jobs in iteration order and steps in sequence order; so
  the number of references is the number of steps that carry \<open>uses\<close>.
\<close>

theorem parse_workflow_file_uses:
  assumes "enforce_rate_limit env s = (Return (), s1)"
    and "http_get env (trace s1) (Download download_url) = Inr response"
    and "status_code response = 200"
    and "yaml_safe_load env (response_text response) = Some doc"
    and "jobs_of doc = Some jobs"
    and "\<forall>job \<in> set jobs. has_steps job"
  shows "fst (parse_workflow_file env download_url s) =
           Return (List.map_filter uses_of (all_steps jobs))
         \<and> length (List.map_filter uses_of (all_steps jobs)) =
           length (filter carries_uses (all_steps jobs))"
proof -
  have "parse_content env (response_text response) =
          Inr (List.map_filter uses_of (all_steps jobs))"
    using assms(4-6) by (rule parse_content_eq)
  then have "fst (parse_workflow_file env download_url s) =
          Return (List.map_filter uses_of (all_steps jobs))"
    using assms(1-3)
    by (simp add: parse_workflow_file_def io_bind_Return requests_get_Inr io_lift_def
        io_return_def)
  moreover have "(\<lambda>step. uses_of step \<noteq> None) = carries_uses"
    by (rule ext) (simp add: carries_uses_def)
  then have "length (List.map_filter uses_of (all_steps jobs)) =
          length (filter carries_uses (all_steps jobs))"
    by (simp only: length_map_filter)
  ultimately show ?thesis
    by (rule conjI)
qed

theorem parse_workflow_file_uses_witness:
  "fst (parse_workflow_file demo_env (VStr ''raw/ci.yml'') (initial_state None)) =
     Return [VStr ''actions/checkout@v3'', VStr ''randomuser/cool-action@v1'']
   \<and> length (filter carries_uses (all_steps demo_jobs)) = 2
   \<and> length (all_steps demo_jobs) = 3"
proof -
  let ?s1 = "(initial_state None)\<lparr>trace := [Call RateLimit]\<rparr>"
  let ?r = "\<lparr>status_code = 200, response_text = ''ci''\<rparr>"
  have 1: "enforce_rate_limit demo_env (initial_state None) = (Return (), ?s1)"
    by code_simp
  have 2: "http_get demo_env (trace ?s1) (Download (VStr ''raw/ci.yml'')) = Inr ?r"
    by code_simp
  have 3: "status_code ?r = 200"
    by simp
  have 4: "yaml_safe_load demo_env (response_text ?r) = Some (VDict [(VStr ''name'', VStr ''CI''), (VStr ''jobs'', VDict demo_jobs)])"
    by code_simp
  have 5: "jobs_of (VDict [(VStr ''name'', VStr ''CI''), (VStr ''jobs'', VDict demo_jobs)]) = Some demo_jobs"
    by simp
  have 6: "\<forall>job \<in> set demo_jobs. has_steps job"
    by (simp add: demo_jobs_def has_steps_def)
  have 7: "List.map_filter uses_of (all_steps demo_jobs) = [VStr ''actions/checkout@v3'', VStr ''randomuser/cool-action@v1'']"
    by code_simp
  have 8: "length (all_steps demo_jobs) = 3"
    by code_simp
  show ?thesis
    using parse_workflow_file_uses [OF 1 2 3 4 5 6] 7 8 by simp
qed

text \<open>
  Claim C3. The parser should never raise, whatever the shape of the document. The code
  checks the shape of the document, of \<open>jobs\<close>, of \<open>steps\<close> and of each step, but calls
  \<^verbatim>\<open>job_data.get\<close> on a job entry without checking that it is a mapping: for a
  workflow whose job is null the traversal raises \<^verbatim>\<open>AttributeError\<close>, outside the
  \<^verbatim>\<open>try\<close>, and nothing in \<^verbatim>\<open>main\<close> catches it.
\<close>

theorem parse_content_null_job:
  "parse_content null_job_env ''jobs: {build: null}'' = Inl AttributeError
   \<and> fst (parse_workflow_file null_job_env (VStr ''raw/ci.yml'') (initial_state None)) = Raise AttributeError
   \<and> exit_status (fst (main null_job_env 5 (initial_state (Some ''cache'')))) = Some 1"
  by code_simp

subsection \<open>The gate and the organization registry\<close>

lemma snd_io_return [simp]: "snd (io_return x s) = s"
  by (simp add: io_return_def)

lemma snd_io_raise [simp]: "snd (io_raise e s) = s"
  by (simp add: io_raise_def)

lemma snd_io_lift [simp]: "snd (io_lift r s) = s"
  by (cases r) (simp_all add: io_lift_def)

lemma snd_response_json [simp]: "snd (response_json env response s) = s"
  by (simp add: response_json_def split: option.splits)

lemma snd_io_bind:
  "snd (io_bind m f s) = (case fst (m s) of Return x \<Rightarrow> snd (f x (snd (m s))) | _ \<Rightarrow> snd (m s))"
  by (simp add: io_bind_def split: prod.splits outcome.splits)

lemma snd_requests_get [simp]:
  "snd (requests_get env req s) = s\<lparr>trace := trace s @ [Call req]\<rparr>"
  by (simp add: requests_get_def split: sum.splits)

lemma fst_requests_get_not_Timeout [simp]: "fst (requests_get env req s) \<noteq> Timeout"
  by (simp add: requests_get_def split: sum.splits)

lemma snd_write_org_file [simp]: "snd (write_org_file c s) = s\<lparr>org_file := Some c\<rparr>"
  by (simp add: write_org_file_def)

lemma check_rate_limit_state:
  "snd (check_rate_limit env s) = s\<lparr>trace := trace s @ [Call RateLimit]\<rparr>"
  by (simp add: check_rate_limit_def snd_io_bind split: outcome.splits)

lemma fetch_orgs_trace: "trace (snd (fetch_orgs env s)) = trace s @ [Call UserOrgs]"
  by (simp add: fetch_orgs_def snd_io_bind split: outcome.splits)

lemma not_Timeout_bind:
  "fst (m s) \<noteq> Timeout \<Longrightarrow> (\<And>x s'. fst (f x s') \<noteq> Timeout) \<Longrightarrow> fst (io_bind m f s) \<noteq> Timeout"
proof (cases "m s")
  case (Pair r s1)
  assume "fst (m s) \<noteq> Timeout" and f: "\<And>x s'. fst (f x s') \<noteq> Timeout"
  with Pair show ?thesis
    by (cases r) (simp_all add: io_bind_def)
qed

lemma fst_io_return [simp]: "fst (io_return x s) = Return x"
  by (simp add: io_return_def)

lemma fst_io_lift_not_Timeout [simp]: "fst (io_lift r s) \<noteq> Timeout"
  by (cases r) (simp_all add: io_lift_def io_raise_def)

lemma fst_response_json_not_Timeout [simp]: "fst (response_json env r s) \<noteq> Timeout"
  by (simp add: response_json_def io_raise_def split: option.splits)

lemma check_rate_limit_not_Timeout: "fst (check_rate_limit env s) \<noteq> Timeout"
  unfolding check_rate_limit_def
  by (intro not_Timeout_bind) (simp_all add: not_Timeout_bind)

lemma enforce_not_Timeout: "fst (enforce_rate_limit env s) \<noteq> Timeout"
proof -
  have "fst (io_bind (time_time env)
               (\<lambda>t. io_bind (io_lift (minus_int reset_time t)) (\<lambda>d. time_sleep (max d 65))) s')
          \<noteq> Timeout" for reset_time s'
    by (intro not_Timeout_bind) (simp_all add: time_time_def time_sleep_def)
  then show ?thesis
    unfolding enforce_rate_limit_def
    by (intro not_Timeout_bind check_rate_limit_not_Timeout) (simp split: prod.splits)
qed

lemma enforce_trace:
  "trace (snd (enforce_rate_limit env s)) = trace s @ [Call RateLimit]
   \<or> (\<exists>d. trace (snd (enforce_rate_limit env s)) = trace s @ [Call RateLimit, Sleep d])"
proof (cases "check_rate_limit env s")
  case (Pair r s1)
  have s1: "s1 = s\<lparr>trace := trace s @ [Call RateLimit]\<rparr>"
    using check_rate_limit_state [of env s] Pair by simp
  show ?thesis
  proof (cases r)
    case (Return p)
    obtain remaining reset_time where p: "p = (remaining, reset_time)" by (cases p)
    show ?thesis
      using Pair Return p s1
      by (cases "minus_int reset_time (now env (trace s1))")
         (simp_all add: enforce_rate_limit_def io_bind_def time_time_def time_sleep_def
           io_lift_def io_raise_def io_return_def)
  qed (use Pair s1 in \<open>simp_all add: enforce_rate_limit_def io_bind_def\<close>)
qed

text \<open>
  Claim C10. One call of \<open>enforce_rate_limit\<close> ends (it has no loop and needs no fuel)
  after exactly one quota query and at most one sleep; the sleep, when there is one, is
  the last thing it does, with no second query after it.
\<close>

theorem enforce_rate_limit_once:
  "fst (enforce_rate_limit env s) \<noteq> Timeout
   \<and> (trace (snd (enforce_rate_limit env s)) = trace s @ [Call RateLimit]
      \<or> (\<exists>d. trace (snd (enforce_rate_limit env s)) = trace s @ [Call RateLimit, Sleep d]))"
  using enforce_not_Timeout enforce_trace by blast

theorem enforce_rate_limit_once_witness:
  "fst (enforce_rate_limit exhausted_env (initial_state None)) = Return ()
   \<and> trace (snd (enforce_rate_limit exhausted_env (initial_state None))) =
       [Call RateLimit, Sleep 100]
   \<and> fst (check_rate_limit exhausted_env (snd (enforce_rate_limit exhausted_env (initial_state None)))) = Return (VInt 0, VInt 1700000100)"
proof -
  have "enforce_rate_limit exhausted_env (initial_state None) =
          (Return (), (initial_state None)\<lparr>trace := [Call RateLimit, Sleep 100]\<rparr>)"
    by code_simp
  moreover have "fst (check_rate_limit exhausted_env ((initial_state None)\<lparr>trace := [Call RateLimit, Sleep 100]\<rparr>)) =
      Return (VInt 0, VInt 1700000100)"
    by code_simp
  ultimately show ?thesis
    using enforce_rate_limit_once [of exhausted_env "initial_state None"] by simp
qed

text \<open>
  Claim C9. \<open>load_orgs\<close> does not look at the shape of the cached value: whenever the
  cache file exists and its content decodes, the decoded value is returned as it is and
  nothing else happens; the live fetch runs exactly when the file is absent or its
  content does not decode.
\<close>

theorem load_orgs_no_validation:
  "(org_file s = Some content \<and> json_loads env content = Some v
      \<longrightarrow> load_orgs env s = (Return v, s))
   \<and> (load_orgs env s = fetch_orgs env s
      \<longleftrightarrow> org_file s = None \<or> (\<exists>c. org_file s = Some c \<and> json_loads env c = None))"
proof -
  have "(Return v', s) \<noteq> fetch_orgs env s" for v'
    using fetch_orgs_trace [of env s] by (metis append_self_conv not_Cons_self2 snd_conv)
  then show ?thesis
    by (auto simp: load_orgs_def split: option.splits)
qed

theorem load_orgs_no_validation_witness:
  "load_orgs demo_env (initial_state (Some ''object'')) =
     (Return (VDict [(VStr ''acme'', VInt 1)]), initial_state (Some ''object''))
   \<and> load_orgs demo_env (initial_state (Some ''object'')) \<noteq> fetch_orgs demo_env (initial_state (Some ''object''))
   \<and> load_orgs demo_env (initial_state (Some ''garbage'')) = fetch_orgs demo_env (initial_state (Some ''garbage''))"
proof -
  have 1: "org_file (initial_state (Some ''object'')) = Some ''object''"
    by (simp add: initial_state_def)
  have 2: "json_loads demo_env ''object'' = Some (VDict [(VStr ''acme'', VInt 1)])"
    by code_simp
  have 3: "org_file (initial_state (Some ''garbage'')) = Some ''garbage''"
    by (simp add: initial_state_def)
  have 4: "json_loads demo_env ''garbage'' = None"
    by code_simp
  note obj = load_orgs_no_validation [of "initial_state (Some ''object'')" "''object''" demo_env
        "VDict [(VStr ''acme'', VInt 1)]"]
  note bad = load_orgs_no_validation [of "initial_state (Some ''garbage'')" "''garbage''" demo_env
        VNone]
  have a: "load_orgs demo_env (initial_state (Some ''object'')) =
     (Return (VDict [(VStr ''acme'', VInt 1)]), initial_state (Some ''object''))"
    using obj 1 2 by simp
  have "\<not> (org_file (initial_state (Some ''object'')) = None
            \<or> (\<exists>c. org_file (initial_state (Some ''object'')) = Some c
                    \<and> json_loads demo_env c = None))"
    using 1 2 by simp
  with obj have b: "load_orgs demo_env (initial_state (Some ''object'')) \<noteq>
     fetch_orgs demo_env (initial_state (Some ''object''))"
    by blast
  have c: "load_orgs demo_env (initial_state (Some ''garbage'')) =
     fetch_orgs demo_env (initial_state (Some ''garbage''))"
    using bad 3 4 by simp
  show ?thesis
    using a b c by (intro conjI)
qed

text \<open>
  Claim C6. Every remote call should come right after a quota check. The calls of
  \<open>fetch_all_repos\<close>, \<open>fetch_workflow_files\<close> and \<open>parse_workflow_file\<close> do, but
  \<open>fetch_orgs\<close> issues its request with no check at all: in a run without a cache file
  the request for the organizations is the first event of the run.
\<close>

theorem fetch_orgs_unchecked:
  "trace (snd (fetch_orgs env s)) = trace s @ [Call UserOrgs]
   \<and> trace (snd (main demo_env 5 (initial_state None))) =
       [Call UserOrgs,
        Call RateLimit, Call (OrgRepos (VStr ''acme'') 1),
        Call RateLimit, Call (OrgRepos (VStr ''acme'') 2),
        Call RateLimit, Call (Contents (VStr ''acme'') (VStr ''api'')),
        Call RateLimit, Call (Download (VStr ''raw/ci.yml''))]"
proof -
  have "trace (snd (main demo_env 5 (initial_state None))) =
       [Call UserOrgs,
        Call RateLimit, Call (OrgRepos (VStr ''acme'') 1),
        Call RateLimit, Call (OrgRepos (VStr ''acme'') 2),
        Call RateLimit, Call (Contents (VStr ''acme'') (VStr ''api'')),
        Call RateLimit, Call (Download (VStr ''raw/ci.yml''))]"
    by code_simp
  then show ?thesis
    using fetch_orgs_trace by simp
qed

subsection \<open>Stable observations and the sleeps of a run\<close>

lemma stableI: "(\<And>s. obs (snd (m s)) = obs s) \<Longrightarrow> stable obs m"
  by (simp add: stable_def)

lemma stableD: "stable obs m \<Longrightarrow> obs (snd (m s)) = obs s"
  by (simp add: stable_def)

lemma stable_return [simp]: "stable obs (io_return x)"
  by (simp add: stable_def)

lemma stable_raise [simp]: "stable obs (io_raise e)"
  by (simp add: stable_def)

lemma stable_lift [simp]: "stable obs (io_lift r)"
  by (simp add: stable_def)

lemma stable_response_json [simp]: "stable obs (response_json env response)"
  by (simp add: stable_def)

lemma stable_bind:
  assumes "stable obs m" and "\<And>x. stable obs (f x)"
  shows "stable obs (io_bind m f)"
proof (rule stableI)
  fix s
  show "obs (snd (io_bind m f s)) = obs s"
    using stableD [OF assms(1), of s] stableD [OF assms(2)]
    by (cases "fst (m s)") (simp_all add: snd_io_bind)
qed

lemma stable_if:
  "(c \<Longrightarrow> stable obs m) \<Longrightarrow> (\<not> c \<Longrightarrow> stable obs n) \<Longrightarrow> stable obs (if c then m else n)"
  by simp


lemma stable_requests_get:
  assumes "\<And>s e. \<not> is_sleep e \<Longrightarrow> obs (s\<lparr>trace := trace s @ [e]\<rparr>) = obs s"
  shows "stable obs (requests_get env req)"
  by (rule stableI) (simp add: assms)

lemma stable_fetch_all_repos_loop:
  assumes "stable obs (enforce_rate_limit env)"
    and "\<And>req. stable obs (requests_get env req)"
  shows "stable obs (fetch_all_repos_loop env fuel org page repos)"
proof (induction fuel arbitrary: page repos)
  case 0
  show ?case by (simp add: stable_def)
next
  case (Suc fuel)
  show ?case
    by (simp add: assms Suc stable_bind)
qed

lemma stable_fetch_workflow_files:
  assumes "stable obs (enforce_rate_limit env)"
    and "\<And>req. stable obs (requests_get env req)"
  shows "stable obs (fetch_workflow_files env org repo_name)"
  unfolding fetch_workflow_files_def
  by (intro stable_bind stable_if assms) (simp_all split: val.splits)

lemma stable_parse_workflow_file:
  assumes "stable obs (enforce_rate_limit env)"
    and "\<And>req. stable obs (requests_get env req)"
  shows "stable obs (parse_workflow_file env download_url)"
  unfolding parse_workflow_file_def
  by (intro stable_bind stable_if assms) simp_all




lemmas run_defs = main_def crawl_def org_body_def repo_body_def workflow_body_def
  fetch_all_repos_def fetch_workflow_files_def parse_workflow_file_def parse_content_def
  enforce_rate_limit_def check_rate_limit_def load_orgs_def fetch_orgs_def
  requests_get_def response_json_def time_sleep_def time_time_def write_org_file_def
  write_results_file_def note_extracted_def directory_item_def
  io_bind_def io_return_def io_raise_def io_lift_def setitem_def
  is_third_party_def initial_state_def




subsection \<open>The report and what was extracted\<close>

lemma io_bind_ReturnE:
  assumes "io_bind m f s = (Return y, s'')"
  obtains x s' where "m s = (Return x, s')" and "f x s' = (Return y, s'')"
proof (cases "m s")
  case (Pair r s1)
  with assms show ?thesis
    by (cases r) (auto simp: io_bind_def intro: that)
qed

lemma io_lift_ReturnE:
  assumes "io_lift r s = (Return y, s')"
  shows "r = Inr y \<and> s' = s"
  using assms by (cases r) (simp_all add: io_lift_def io_raise_def io_return_def)

lemma lookup_py_key: "py_key k = py_key k' \<Longrightarrow> lookup d k = lookup d k'"
  by (induction d) auto

lemma lookup_update:
  "lookup (update d k v) k' = (if py_key k = py_key k' then Some v else lookup d k')"
  by (induction d) auto

lemma uses_loop_length:
  "uses_loop own path uses acc = Inr acc' \<Longrightarrow> length acc' = length acc + length uses"
  by (induction uses arbitrary: acc) (auto split: sum.splits)

lemma enforce_state: "\<exists>t. snd (enforce_rate_limit env s) = s\<lparr>trace := t\<rparr>"
proof (cases "check_rate_limit env s")
  case (Pair r s1)
  have s1: "s1 = s\<lparr>trace := trace s @ [Call RateLimit]\<rparr>"
    using check_rate_limit_state [of env s] Pair by simp
  show ?thesis
  proof (cases r)
    case (Return p)
    obtain remaining reset_time where p: "p = (remaining, reset_time)" by (cases p)
    show ?thesis
      using Pair Return p s1
      by (cases "minus_int reset_time (now env (trace s1))")
         (auto simp add: enforce_rate_limit_def io_bind_def time_time_def time_sleep_def
           io_lift_def io_raise_def io_return_def)
  qed (use Pair s1 in \<open>auto simp add: enforce_rate_limit_def io_bind_def\<close>)
qed

lemma stable_extracted_enforce: "stable extracted (enforce_rate_limit env)"
proof (rule stableI)
  fix s
  obtain t where "snd (enforce_rate_limit env s) = s\<lparr>trace := t\<rparr>"
    using enforce_state by blast
  then show "extracted (snd (enforce_rate_limit env s)) = extracted s"
    by simp
qed

lemma stable_extracted_get: "stable extracted (requests_get env req)"
  by (rule stableI) simp

lemmas stable_extracted = stable_extracted_enforce stable_extracted_get

lemma stable_run: "stable obs m \<Longrightarrow> m s = (r, s') \<Longrightarrow> obs s' = obs s"
  using stableD [of obs m s] by simp

lemma workflow_body_log:
  assumes "workflow_body env own org rn wfile acc s = (Return acc', s')"
  shows "\<exists>uses. extracted s' = extracted s @ [(org, rn, uses)]
           \<and> length acc' = length acc + length uses"
proof -
  from assms obtain uses s1 where
    p: "parse_workflow_file env (wf_download_url wfile) s = (Return uses, s1)"
    and r: "io_bind (note_extracted org rn uses)
              (\<lambda>_. io_lift (uses_loop own (wf_path wfile) uses acc)) s1 = (Return acc', s')"
    unfolding workflow_body_def by (rule io_bind_ReturnE)
  have e1: "extracted s1 = extracted s"
    using stable_parse_workflow_file [of extracted env, OF stable_extracted] p
    by (rule stable_run)
  from r have "uses_loop own (wf_path wfile) uses acc = Inr acc'"
    and "s' = s1\<lparr>extracted := extracted s1 @ [(org, rn, uses)]\<rparr>"
    by (auto simp: io_bind_def note_extracted_def dest: io_lift_ReturnE)
  then show ?thesis
    using e1 uses_loop_length by auto
qed

lemma workflows_log:
  assumes "for_each wfs (workflow_body env own org rn) acc s = (Return acc', s')"
  shows "\<exists>log. extracted s' = extracted s @ log
           \<and> (\<forall>e \<in> set log. fst e = org \<and> fst (snd e) = rn)
           \<and> (acc' \<noteq> [] \<longleftrightarrow> acc \<noteq> [] \<or> (\<exists>e \<in> set log. snd (snd e) \<noteq> []))"
  using assms
proof (induction wfs arbitrary: acc s)
  case Nil
  then show ?case
    by (simp add: io_return_def)
next
  case (Cons wfile wfs)
  from Cons.prems obtain acc1 s1 where
    b: "workflow_body env own org rn wfile acc s = (Return acc1, s1)"
    and r: "for_each wfs (workflow_body env own org rn) acc1 s1 = (Return acc', s')"
    by (auto elim: io_bind_ReturnE)
  from workflow_body_log [OF b] obtain uses where
    u: "extracted s1 = extracted s @ [(org, rn, uses)]"
       "length acc1 = length acc + length uses"
    by blast
  from Cons.IH [OF r] obtain log where
    l: "extracted s' = extracted s1 @ log"
       "\<forall>e \<in> set log. fst e = org \<and> fst (snd e) = rn"
       "acc' \<noteq> [] \<longleftrightarrow> acc1 \<noteq> [] \<or> (\<exists>e \<in> set log. snd (snd e) \<noteq> [])"
    by blast
  have "acc1 \<noteq> [] \<longleftrightarrow> acc \<noteq> [] \<or> uses \<noteq> []"
    using u(2) by (metis add_is_0 length_0_conv)
  with u l show ?case
    by (intro exI [of _ "(org, rn, uses) # log"]) auto
qed

lemma repo_body_log:
  assumes "repo_body env own org repo org_results s = (Return org_results', s')"
  shows "\<exists>log. extracted s' = extracted s @ log
           \<and> (\<forall>e \<in> set log. fst e = org)
           \<and> (\<forall>k. lookup org_results' k \<noteq> None \<longleftrightarrow>
                  lookup org_results k \<noteq> None
                  \<or> (\<exists>e \<in> set log. py_key (fst (snd e)) = py_key k \<and> snd (snd e) \<noteq> []))"
proof -
  from assms obtain rn s0 where
    n: "io_lift (getitem repo ''name'') s = (Return rn, s0)"
    and r0: "io_bind (fetch_workflow_files env org rn) (\<lambda>workflow_files.
       if workflow_files = [] then io_return org_results
       else
         io_bind (for_each workflow_files (workflow_body env own org rn) [])
           (\<lambda>repo_inventory.
              if repo_inventory \<noteq> [] then io_lift (setitem org_results rn repo_inventory)
              else io_return org_results)) s0 = (Return org_results', s')"
    unfolding repo_body_def by (rule io_bind_ReturnE)
  have s0: "s0 = s"
    using io_lift_ReturnE [OF n] by simp
  from r0 obtain wfs s1 where
    f: "fetch_workflow_files env org rn s = (Return wfs, s1)"
    and r1: "(if wfs = [] then io_return org_results
       else
         io_bind (for_each wfs (workflow_body env own org rn) [])
           (\<lambda>repo_inventory.
              if repo_inventory \<noteq> [] then io_lift (setitem org_results rn repo_inventory)
              else io_return org_results)) s1 = (Return org_results', s')"
    unfolding s0 by (rule io_bind_ReturnE)
  have e1: "extracted s1 = extracted s"
    using stable_fetch_workflow_files [of extracted env, OF stable_extracted] f
    by (rule stable_run)
  show ?thesis
  proof (cases "wfs = []")
    case True
    with r1 e1 show ?thesis
      by (intro exI [of _ "[]"]) (simp add: io_return_def)
  next
    case False
    with r1 obtain acc s2 where
      w: "for_each wfs (workflow_body env own org rn) [] s1 = (Return acc, s2)"
      and r2: "(if acc \<noteq> [] then io_lift (setitem org_results rn acc)
                else io_return org_results) s2 = (Return org_results', s')"
      by (auto elim: io_bind_ReturnE)
    from workflows_log [OF w] obtain log where
      l: "extracted s2 = extracted s1 @ log"
         "\<forall>e \<in> set log. fst e = org \<and> fst (snd e) = rn"
         "acc \<noteq> [] \<longleftrightarrow> (\<exists>e \<in> set log. snd (snd e) \<noteq> [])"
      by auto
    show ?thesis
    proof (cases "acc = []")
      case True
      with r2 l e1 show ?thesis
        by (intro exI [of _ log]) (auto simp: io_return_def)
    next
      case False
      with r2 have "setitem org_results rn acc = Inr org_results'" and "s' = s2"
        by (auto dest: io_lift_ReturnE)
      then have "org_results' = update org_results rn acc"
        by (simp add: setitem_def split: if_splits)
      with False l e1 \<open>s' = s2\<close> show ?thesis
        by (intro exI [of _ log]) (auto simp: lookup_update)
    qed
  qed
qed

lemma repos_log:
  assumes "for_each repos (repo_body env own org) org_results s = (Return org_results', s')"
  shows "\<exists>log. extracted s' = extracted s @ log
           \<and> (\<forall>e \<in> set log. fst e = org)
           \<and> (\<forall>k. lookup org_results' k \<noteq> None \<longleftrightarrow>
                  lookup org_results k \<noteq> None
                  \<or> (\<exists>e \<in> set log. py_key (fst (snd e)) = py_key k \<and> snd (snd e) \<noteq> []))"
  using assms
proof (induction repos arbitrary: org_results s)
  case Nil
  then show ?case
    by (intro exI [of _ "[]"]) (simp add: io_return_def)
next
  case (Cons repo repos)
  from Cons.prems obtain d1 s1 where
    b: "repo_body env own org repo org_results s = (Return d1, s1)"
    and r: "for_each repos (repo_body env own org) d1 s1 = (Return org_results', s')"
    by (auto elim: io_bind_ReturnE)
  from repo_body_log [OF b] obtain log1 where
    l1: "extracted s1 = extracted s @ log1" "\<forall>e \<in> set log1. fst e = org"
        "\<forall>k. lookup d1 k \<noteq> None \<longleftrightarrow>
                  lookup org_results k \<noteq> None
                  \<or> (\<exists>e \<in> set log1. py_key (fst (snd e)) = py_key k \<and> snd (snd e) \<noteq> [])"
    by blast
  from Cons.IH [OF r] obtain log2 where
    l2: "extracted s' = extracted s1 @ log2" "\<forall>e \<in> set log2. fst e = org"
        "\<forall>k. lookup org_results' k \<noteq> None \<longleftrightarrow>
                  lookup d1 k \<noteq> None
                  \<or> (\<exists>e \<in> set log2. py_key (fst (snd e)) = py_key k \<and> snd (snd e) \<noteq> [])"
    by blast
  show ?case
  proof (intro exI [of _ "log1 @ log2"] conjI allI)
    show "extracted s' = extracted s @ log1 @ log2"
      using l1(1) l2(1) by simp
    show "\<forall>e \<in> set (log1 @ log2). fst e = org"
      using l1(2) l2(2) by auto
    fix k
    show "lookup org_results' k \<noteq> None \<longleftrightarrow>
            lookup org_results k \<noteq> None
            \<or> (\<exists>e \<in> set (log1 @ log2). py_key (fst (snd e)) = py_key k \<and> snd (snd e) \<noteq> [])"
      using l1(3) l2(3) by (auto simp add: bex_Un)
  qed
qed

lemma stable_fetch_all_repos:
  assumes "stable obs (enforce_rate_limit env)"
    and "\<And>req. stable obs (requests_get env req)"
  shows "stable obs (fetch_all_repos env fuel org)"
  unfolding fetch_all_repos_def using assms by (rule stable_fetch_all_repos_loop)

lemma org_body_log:
  assumes "org_body env fuel own org results s = (Return results', s')"
  shows "\<exists>log. extracted s' = extracted s @ log
           \<and> (\<forall>e \<in> set log. fst e = org)
           \<and> (\<forall>k. py_key k \<noteq> py_key org \<longrightarrow> lookup results' k = lookup results k)
           \<and> (lookup results org = None \<longrightarrow>
                (\<forall>r. has_key results' org r \<longleftrightarrow>
                   (\<exists>e \<in> set log. py_key (fst (snd e)) = py_key r \<and> snd (snd e) \<noteq> [])))"
proof -
  from assms obtain repos s1 where
    f: "fetch_all_repos env fuel org s = (Return repos, s1)"
    and r1: "(if repos = [] then io_return results
       else
         io_bind (for_each repos (repo_body env own org) []) (\<lambda>org_results.
           if org_results \<noteq> [] then io_lift (setitem results org org_results)
           else io_return results)) s1 = (Return results', s')"
    unfolding org_body_def by (rule io_bind_ReturnE)
  have e1: "extracted s1 = extracted s"
    using stable_fetch_all_repos [of extracted env, OF stable_extracted] f
    by (rule stable_run)
  show ?thesis
  proof (cases "repos = []")
    case True
    with r1 e1 show ?thesis
      by (intro exI [of _ "[]"]) (simp add: io_return_def has_key_def)
  next
    case False
    with r1 obtain d s2 where
      w: "for_each repos (repo_body env own org) [] s1 = (Return d, s2)"
      and r2: "(if d \<noteq> [] then io_lift (setitem results org d)
                else io_return results) s2 = (Return results', s')"
      by (auto elim: io_bind_ReturnE)
    from repos_log [OF w] obtain log where
      l: "extracted s2 = extracted s1 @ log"
         "\<forall>e \<in> set log. fst e = org"
         "\<forall>k. lookup d k \<noteq> None \<longleftrightarrow>
              (\<exists>e \<in> set log. py_key (fst (snd e)) = py_key k \<and> snd (snd e) \<noteq> [])"
      by auto
    show ?thesis
    proof (cases "d = []")
      case True
      with r2 have "results' = results" "s' = s2"
        by (simp_all add: io_return_def)
      moreover have "\<forall>k. \<not> (\<exists>e \<in> set log. py_key (fst (snd e)) = py_key k \<and> snd (snd e) \<noteq> [])"
        using l(3) True by simp
      ultimately show ?thesis
        using l e1 by (intro exI [of _ log]) (simp add: has_key_def)
    next
      case False
      with r2 have "setitem results org d = Inr results'" and s': "s' = s2"
        by (auto dest: io_lift_ReturnE)
      then have u: "results' = update results org d"
        by (simp add: setitem_def split: if_splits)
      show ?thesis
        using l e1 s' by (intro exI [of _ log]) (simp add: u lookup_update has_key_def)
    qed
  qed
qed

lemma has_key_py_key: "py_key o1 = py_key o2 \<Longrightarrow> has_key results o1 r = has_key results o2 r"
  by (simp add: has_key_def lookup_py_key [of o1 o2])

lemma orgs_log:
  assumes "for_each orgs (org_body env fuel own) results s = (Return results', s')"
    and "distinct (map py_key orgs)"
    and "\<forall>k r. has_key results k r \<longleftrightarrow> extracted_some s k r"
    and "\<forall>k. lookup results k \<noteq> None \<longrightarrow> py_key k \<in> D"
    and "\<forall>e \<in> set (extracted s). py_key (fst e) \<in> D"
    and "D \<inter> py_key ` set orgs = {}"
  shows "\<forall>k r. has_key results' k r \<longleftrightarrow> extracted_some s' k r"
  using assms
proof (induction orgs arbitrary: results s D)
  case Nil
  then show ?case
    by (simp add: io_return_def)
next
  case (Cons org orgs)
  from Cons.prems(1) obtain res1 s1 where
    b: "org_body env fuel own org results s = (Return res1, s1)"
    and r: "for_each orgs (org_body env fuel own) res1 s1 = (Return results', s')"
    by (auto elim: io_bind_ReturnE)
  have fresh: "py_key org \<notin> D"
    using Cons.prems(6) by auto
  then have none: "lookup results org = None"
    using Cons.prems(4) by blast
  from org_body_log [OF b] none obtain log where
    l: "extracted s1 = extracted s @ log"
       "\<forall>e \<in> set log. fst e = org"
       "\<forall>k. py_key k \<noteq> py_key org \<longrightarrow> lookup res1 k = lookup results k"
       "\<forall>r. has_key res1 org r \<longleftrightarrow>
              (\<exists>e \<in> set log. py_key (fst (snd e)) = py_key r \<and> snd (snd e) \<noteq> [])"
    by blast
  have old: "\<not> list_ex (hit k r) (extracted s)" if "py_key k = py_key org" for k r
    using Cons.prems(5) fresh that by (auto simp: list_ex_iff hit_def)
  have new: "\<not> list_ex (hit k r) log" if "py_key k \<noteq> py_key org" for k r
    using l(2) that by (auto simp: list_ex_iff hit_def)
  have a: "has_key res1 k r \<longleftrightarrow> extracted_some s1 k r" for k r
  proof (cases "py_key k = py_key org")
    case True
    have "has_key res1 k r \<longleftrightarrow> has_key res1 org r"
      using True by (rule has_key_py_key)
    also have "\<dots> \<longleftrightarrow> list_ex (hit k r) log"
      using l(2) l(4) True by (auto simp: list_ex_iff hit_def)
    finally show ?thesis
      using old [OF True] by (simp add: extracted_some_def l(1))
  next
    case False
    have "has_key res1 k r \<longleftrightarrow> has_key results k r"
      using l(3) False by (simp add: has_key_def)
    then show ?thesis
      using Cons.prems(3) new [OF False] by (simp add: extracted_some_def l(1))
  qed
  have b': "\<forall>k. lookup res1 k \<noteq> None \<longrightarrow> py_key k \<in> insert (py_key org) D"
    using l(3) Cons.prems(4) by (metis insert_iff)
  have c: "\<forall>e \<in> set (extracted s1). py_key (fst e) \<in> insert (py_key org) D"
    using l(1) l(2) Cons.prems(5) by auto
  have d: "insert (py_key org) D \<inter> py_key ` set orgs = {}"
    using Cons.prems(2) Cons.prems(6) by auto
  have "distinct (map py_key orgs)"
    using Cons.prems(2) by simp
  from Cons.IH [OF r this _ b' c d] a show ?case
    by blast
qed

lemma dense_update: "dense d \<Longrightarrow> v \<noteq> [] \<Longrightarrow> dense (update d k v)"
  by (induction d) (auto simp: dense_def)

lemma sparse_update:
  "sparse results \<Longrightarrow> d \<noteq> [] \<Longrightarrow> dense d \<Longrightarrow> sparse (update results k d)"
  by (induction results) (auto simp: sparse_def dense_def)

lemma for_each_invariant:
  assumes "for_each xs body acc s = (Return acc', s')"
    and "I acc"
    and "\<And>x a s a' s'. body x a s = (Return a', s') \<Longrightarrow> I a \<Longrightarrow> I a'"
  shows "I acc'"
  using assms(1,2)
proof (induction xs arbitrary: acc s)
  case Nil
  then show ?case
    by (simp add: io_return_def)
next
  case (Cons x xs)
  from Cons.prems(1) obtain a1 s1 where
    b: "body x acc s = (Return a1, s1)" and r: "for_each xs body a1 s1 = (Return acc', s')"
    by (auto elim: io_bind_ReturnE)
  from assms(3) [OF b Cons.prems(2)] have "I a1" .
  from Cons.IH [OF r this] show ?case .
qed

lemma repo_body_dense:
  assumes "repo_body env own org repo org_results s = (Return org_results', s')"
    and "dense org_results"
  shows "dense org_results'"
proof -
  from assms(1) obtain rn s0 where
    n: "io_lift (getitem repo ''name'') s = (Return rn, s0)"
    and r0: "io_bind (fetch_workflow_files env org rn) (\<lambda>workflow_files.
       if workflow_files = [] then io_return org_results
       else
         io_bind (for_each workflow_files (workflow_body env own org rn) [])
           (\<lambda>repo_inventory.
              if repo_inventory \<noteq> [] then io_lift (setitem org_results rn repo_inventory)
              else io_return org_results)) s0 = (Return org_results', s')"
    unfolding repo_body_def by (rule io_bind_ReturnE)
  from r0 obtain wfs s1 where
    r1: "(if wfs = [] then io_return org_results
       else
         io_bind (for_each wfs (workflow_body env own org rn) [])
           (\<lambda>repo_inventory.
              if repo_inventory \<noteq> [] then io_lift (setitem org_results rn repo_inventory)
              else io_return org_results)) s1 = (Return org_results', s')"
    by (rule io_bind_ReturnE)
  show ?thesis
  proof (cases "wfs = []")
    case True
    with r1 assms(2) show ?thesis
      by (simp add: io_return_def)
  next
    case False
    with r1 obtain acc s2 where
      r2: "(if acc \<noteq> [] then io_lift (setitem org_results rn acc)
            else io_return org_results) s2 = (Return org_results', s')"
      by (auto elim: io_bind_ReturnE)
    show ?thesis
    proof (cases "acc = []")
      case True
      with r2 assms(2) show ?thesis
        by (simp add: io_return_def)
    next
      case False
      with r2 have "setitem org_results rn acc = Inr org_results'"
        by (auto dest: io_lift_ReturnE)
      then have "org_results' = update org_results rn acc"
        by (simp add: setitem_def split: if_splits)
      with False assms(2) show ?thesis
        by (simp add: dense_update)
    qed
  qed
qed

lemma org_body_sparse:
  assumes "org_body env fuel own org results s = (Return results', s')"
    and "sparse results"
  shows "sparse results'"
proof -
  from assms(1) obtain repos s1 where
    r1: "(if repos = [] then io_return results
       else
         io_bind (for_each repos (repo_body env own org) []) (\<lambda>org_results.
           if org_results \<noteq> [] then io_lift (setitem results org org_results)
           else io_return results)) s1 = (Return results', s')"
    unfolding org_body_def by (rule io_bind_ReturnE)
  show ?thesis
  proof (cases "repos = []")
    case True
    with r1 assms(2) show ?thesis
      by (simp add: io_return_def)
  next
    case False
    with r1 obtain d s2 where
      w: "for_each repos (repo_body env own org) [] s1 = (Return d, s2)"
      and r2: "(if d \<noteq> [] then io_lift (setitem results org d)
                else io_return results) s2 = (Return results', s')"
      by (auto elim: io_bind_ReturnE)
    have "dense ([] :: inventory)"
      by (simp add: dense_def)
    with w have d: "dense d"
      by (rule for_each_invariant) (rule repo_body_dense)
    show ?thesis
    proof (cases "d = []")
      case True
      with r2 assms(2) show ?thesis
        by (simp add: io_return_def)
    next
      case False
      with r2 have "setitem results org d = Inr results'"
        by (auto dest: io_lift_ReturnE)
      then have "results' = update results org d"
        by (simp add: setitem_def split: if_splits)
      with False d assms(2) show ?thesis
        by (simp add: sparse_update)
    qed
  qed
qed

lemma crawl_sparse:
  assumes "crawl env fuel own orgs s = (Return results, s')"
  shows "sparse results"
proof -
  have "sparse ([] :: report)"
    by (simp add: sparse_def dense_def)
  with assms [unfolded crawl_def] show ?thesis
    by (rule for_each_invariant) (rule org_body_sparse)
qed

lemma dense_lookup: "dense d \<Longrightarrow> lookup d k = Some v \<Longrightarrow> v \<noteq> []"
  by (induction d) (auto simp: dense_def split: if_splits)

lemma lookup_first: "d \<noteq> [] \<Longrightarrow> \<exists>k v. lookup d k = Some v"
  by (cases d) auto

text \<open>
  Claim C5, as amended. When the organizations of the crawl are pairwise distinct as
  dictionary keys and the crawl returns, the report is sparse. It has a key for an
  organization and a repository name exactly when some call of the parser for that pair
  returned at least one reference; it has a key for an organization exactly when some
  call of the parser for one of its repositories returned at least one reference; and no
  organization is stored with an empty dictionary, no repository with an empty list. So
  an organization whose enumeration yields no repository contributes no key, and a
  repository without a workflows directory or whose workflow files yield no reference is
  absent.
\<close>

theorem report_sparse:
  assumes "crawl env fuel my_orgs_lower orgs s = (Return results, s')"
    and "distinct (map py_key orgs)"
    and "extracted s = []"
  shows "(has_key results org repo_name \<longleftrightarrow> extracted_some s' org repo_name)
         \<and> (lookup results org \<noteq> None \<longleftrightarrow> extracted_any s' org)
         \<and> sparse results"
proof -
  have "\<forall>k r. has_key [] k r \<longleftrightarrow> extracted_some s k r"
    using assms(3) by (simp add: has_key_def extracted_some_def)
  moreover have "\<forall>k. lookup ([] :: report) k \<noteq> None \<longrightarrow> py_key k \<in> {}"
    by simp
  moreover have "\<forall>e \<in> set (extracted s). py_key (fst e) \<in> {}"
    using assms(3) by simp
  ultimately have pairs: "\<forall>k r. has_key results k r \<longleftrightarrow> extracted_some s' k r"
    using assms(1,2) orgs_log [of orgs env fuel my_orgs_lower "[]" s results s' "{}"]
    unfolding crawl_def by blast
  have sp: "sparse results"
    using assms(1) by (rule crawl_sparse)
  have "lookup results org \<noteq> None \<longleftrightarrow> extracted_any s' org"
  proof
    assume "lookup results org \<noteq> None"
    then obtain d where d: "lookup results org = Some d"
      by blast
    with sp have "d \<noteq> []"
      by (auto simp: sparse_def dest: dense_lookup)
    from lookup_first [OF this] obtain r v where "lookup d r = Some v"
      by blast
    with d have "has_key results org r"
      by (simp add: has_key_def)
    with pairs have "extracted_some s' org r"
      by blast
    then show "extracted_any s' org"
      by (auto simp: extracted_some_def extracted_any_def hit_def list_ex_iff)
  next
    assume "extracted_any s' org"
    then obtain e where "e \<in> set (extracted s')" "py_key (fst e) = py_key org"
      "snd (snd e) \<noteq> []"
      by (auto simp: extracted_any_def list_ex_iff)
    then have "extracted_some s' org (fst (snd e))"
      by (auto simp: extracted_some_def hit_def list_ex_iff)
    with pairs have "has_key results org (fst (snd e))"
      by blast
    then show "lookup results org \<noteq> None"
      by (auto simp: has_key_def split: option.splits)
  qed
  with pairs sp show ?thesis
    by blast
qed

lemmas demo_defs = demo_env_def demo_get_def demo_json_def demo_yaml_def
  lower_def lower_char_def strip_def isspace_def startswith_def

lemmas mixed_defs = mixed_env_def mixed_get_def mixed_json_def mixed_yaml_def

theorem report_sparse_witness:
  "fst (crawl mixed_env (Suc (Suc 0)) [''acme'', ''umbrella'']
         [VStr ''acme'', VStr ''umbrella''] (initial_state (Some ''two''))) =
     Return [(VStr ''acme'', [(VStr ''api'', demo_entries)])]
   \<and> extracted
        (snd (crawl mixed_env (Suc (Suc 0)) [''acme'', ''umbrella'']
               [VStr ''acme'', VStr ''umbrella''] (initial_state (Some ''two'')))) =
       [(VStr ''acme'', VStr ''api'',
         [VStr ''actions/checkout@v3'', VStr ''randomuser/cool-action@v1'']),
        (VStr ''acme'', VStr ''docs'', [])]
   \<and> has_key [(VStr ''acme'', [(VStr ''api'', demo_entries)])] (VStr ''acme'') (VStr ''api'')
   \<and> \<not> has_key [(VStr ''acme'', [(VStr ''api'', demo_entries)])] (VStr ''acme'') (VStr ''web'')
   \<and> \<not> has_key [(VStr ''acme'', [(VStr ''api'', demo_entries)])] (VStr ''acme'') (VStr ''docs'')
   \<and> lookup [(VStr ''acme'', [(VStr ''api'', demo_entries)])] (VStr ''umbrella'') = None"
proof -
  let ?s = "initial_state (Some ''two'')"
  let ?log = "[(VStr ''acme'', VStr ''api'',
         [VStr ''actions/checkout@v3'', VStr ''randomuser/cool-action@v1'']),
        (VStr ''acme'', VStr ''docs'', [])]"
  let ?s' = "\<lparr>trace =
       [Call RateLimit, Call (OrgRepos (VStr ''acme'') 1),
        Call RateLimit, Call (OrgRepos (VStr ''acme'') 2),
        Call RateLimit, Call (Contents (VStr ''acme'') (VStr ''api'')),
        Call RateLimit, Call (Download (VStr ''raw/ci.yml'')),
        Call RateLimit, Call (Contents (VStr ''acme'') (VStr ''web'')),
        Call RateLimit, Call (Contents (VStr ''acme'') (VStr ''docs'')),
        Call RateLimit, Call (Download (VStr ''raw/lint.yml'')),
        Call RateLimit, Call (OrgRepos (VStr ''umbrella'') 1)],
     org_file = Some ''two'', results_file = None, extracted = ?log\<rparr>"
  let ?results = "[(VStr ''acme'', [(VStr ''api'', demo_entries)])]"
  have run: "crawl mixed_env (Suc (Suc 0)) [''acme'', ''umbrella'']
               [VStr ''acme'', VStr ''umbrella''] ?s = (Return ?results, ?s')"
    by (simp add: run_defs demo_defs mixed_defs demo_entries_def)
  have d: "distinct (map py_key [VStr ''acme'', VStr ''umbrella''])"
    by simp
  have e: "extracted ?s = []"
    by (simp add: initial_state_def)
  have x: "extracted_some ?s' (VStr ''acme'') (VStr ''api'')"
    "\<not> extracted_some ?s' (VStr ''acme'') (VStr ''web'')"
    "\<not> extracted_some ?s' (VStr ''acme'') (VStr ''docs'')"
    "\<not> extracted_any ?s' (VStr ''umbrella'')"
    by (simp_all add: extracted_some_def extracted_any_def hit_def)
  show ?thesis
    using report_sparse [OF run d e, of "VStr ''acme''" "VStr ''api''"]
      report_sparse [OF run d e, of "VStr ''acme''" "VStr ''web''"]
      report_sparse [OF run d e, of "VStr ''acme''" "VStr ''docs''"]
      report_sparse [OF run d e, of "VStr ''umbrella''" "VStr ''api''"] x
    by (simp add: run)
qed

text \<open>
  Claim C5 as stated fails when an organization occurs twice in the list and the remote
  side changes between the two passes: \<^verbatim>\<open>results[org] = org_results\<close> of the second
  pass replaces what the first pass stored, so a repository for which references were
  extracted in the first pass has no key in the final report.
\<close>

theorem report_drops_first_pass:
  "fst (crawl shifting_env (Suc (Suc (Suc 0))) [''acme'', ''acme'']
         [VStr ''acme'', VStr ''acme''] (initial_state (Some ''twice''))) =
     Return [(VStr ''acme'', [(VStr ''web'', demo_entries)])]
   \<and> extracted_some
        (snd (crawl shifting_env (Suc (Suc (Suc 0))) [''acme'', ''acme'']
               [VStr ''acme'', VStr ''acme''] (initial_state (Some ''twice''))))
        (VStr ''acme'') (VStr ''api'')
   \<and> \<not> has_key [(VStr ''acme'', [(VStr ''web'', demo_entries)])] (VStr ''acme'') (VStr ''api'')"
proof -
  have "crawl shifting_env (Suc (Suc (Suc 0))) [''acme'', ''acme'']
          [VStr ''acme'', VStr ''acme''] (initial_state (Some ''twice'')) =
     (Return [(VStr ''acme'', [(VStr ''web'', demo_entries)])],
      \<lparr>trace =
         [Call RateLimit, Call (OrgRepos (VStr ''acme'') 1),
          Call RateLimit, Call (OrgRepos (VStr ''acme'') 2),
          Call RateLimit, Call (Contents (VStr ''acme'') (VStr ''api'')),
          Call RateLimit, Call (Download (VStr ''raw/ci.yml'')),
          Call RateLimit, Call (OrgRepos (VStr ''acme'') 1),
          Call RateLimit, Call (OrgRepos (VStr ''acme'') 2),
          Call RateLimit, Call (Contents (VStr ''acme'') (VStr ''web'')),
          Call RateLimit, Call (Download (VStr ''raw/ci.yml''))],
       org_file = Some ''twice'', results_file = None,
       extracted =
         [(VStr ''acme'', VStr ''api'',
           [VStr ''actions/checkout@v3'', VStr ''randomuser/cool-action@v1'']),
          (VStr ''acme'', VStr ''web'',
           [VStr ''actions/checkout@v3'', VStr ''randomuser/cool-action@v1''])]\<rparr>)"
    by (simp add: run_defs demo_defs demo_entries_def shifting_env_def shifting_get_def)
  then show ?thesis
    by (simp add: has_key_def extracted_some_def hit_def)
qed

subsection \<open>Runs that return\<close>




lemma yields_lift: "r = Inr x \<Longrightarrow> Q x \<Longrightarrow> yields Q (io_lift r)"
  by (simp add: yields_def io_lift_def io_return_def)



























subsection \<open>The gate before each request of the crawl\<close>

lemma gated_append:
  "gated opened (xs @ ys) \<longleftrightarrow> gated opened xs \<and> gated (gate opened xs) ys"
  by (induction opened xs rule: gated.induct) auto

lemma adds_gatedI:
  "(\<And>s. \<exists>es. trace (snd (m s)) = trace s @ es \<and> (\<forall>opened. gated opened es)) \<Longrightarrow> adds_gated m"
  by (simp add: adds_gated_def)

lemma adds_gatedD:
  "adds_gated m \<Longrightarrow> \<exists>es. trace (snd (m s)) = trace s @ es \<and> (\<forall>opened. gated opened es)"
  by (simp add: adds_gated_def)

lemma adds_gated_return [simp]: "adds_gated (io_return x)"
  by (simp add: adds_gated_def)

lemma adds_gated_raise [simp]: "adds_gated (io_raise e)"
  by (simp add: adds_gated_def)

lemma adds_gated_lift [simp]: "adds_gated (io_lift r)"
  by (simp add: adds_gated_def)

lemma adds_gated_response_json [simp]: "adds_gated (response_json env response)"
  by (simp add: adds_gated_def)

lemma adds_gated_bind:
  assumes "adds_gated m" and "\<And>x. adds_gated (f x)"
  shows "adds_gated (io_bind m f)"
proof (rule adds_gatedI)
  fix s
  from adds_gatedD [OF assms(1), of s] obtain es1 where
    1: "trace (snd (m s)) = trace s @ es1" "\<forall>opened. gated opened es1"
    by blast
  show "\<exists>es. trace (snd (io_bind m f s)) = trace s @ es \<and> (\<forall>opened. gated opened es)"
  proof (cases "fst (m s)")
    case (Return x)
    from adds_gatedD [OF assms(2), of x "snd (m s)"] obtain es2 where
      2: "trace (snd (f x (snd (m s)))) = trace (snd (m s)) @ es2" "\<forall>opened. gated opened es2"
      by blast
    have "trace (snd (io_bind m f s)) = trace s @ es1 @ es2"
      using Return 1(1) 2(1) by (simp add: snd_io_bind)
    moreover have "\<forall>opened. gated opened (es1 @ es2)"
      using 1(2) 2(2) by (simp add: gated_append)
    ultimately show ?thesis
      by blast
  qed (use 1 in \<open>auto simp: snd_io_bind\<close>)
qed

lemma adds_gated_for_each:
  assumes "\<And>x acc. adds_gated (body x acc)"
  shows "adds_gated (for_each xs body acc)"
  by (induction xs arbitrary: acc) (simp_all add: adds_gated_bind assms)

text \<open>The pattern of every call site of the crawl: the gate, then the request.\<close>

lemma adds_gated_call:
  assumes "\<And>response. adds_gated (f response)"
    and "req \<noteq> RateLimit"
  shows "adds_gated (io_bind (enforce_rate_limit env) (\<lambda>_. io_bind (requests_get env req) f))"
proof (rule adds_gatedI)
  fix s
  let ?m = "io_bind (enforce_rate_limit env) (\<lambda>_. io_bind (requests_get env req) f)"
  obtain r s1 where e: "enforce_rate_limit env s = (r, s1)"
    by (cases "enforce_rate_limit env s")
  from enforce_trace [of env s] e obtain es0 where
    0: "trace s1 = trace s @ es0" "es0 = [Call RateLimit] \<or> (\<exists>d. es0 = [Call RateLimit, Sleep d])"
    by auto
  then have g0: "\<forall>opened. gated opened es0" "\<forall>opened. gate opened es0"
    by auto
  show "\<exists>es. trace (snd (?m s)) = trace s @ es \<and> (\<forall>opened. gated opened es)"
  proof (cases r)
    case (Return u)
    obtain r2 s2 where g: "requests_get env req s1 = (r2, s2)"
      by (cases "requests_get env req s1")
    have s2: "trace s2 = trace s @ es0 @ [Call req]"
      using g 0(1) snd_requests_get [of env req s1] by simp
    have step: "\<forall>opened. gated opened (es0 @ [Call req] @ es)" if "\<forall>opened. gated opened es" for es
      using g0 that assms(2) by (cases req) (simp_all add: gated_append)
    show ?thesis
    proof (cases r2)
      case (Return response)
      from adds_gatedD [OF assms(1), of response s2] obtain es2 where
        2: "trace (snd (f response s2)) = trace s2 @ es2" "\<forall>opened. gated opened es2"
        by blast
      have "trace (snd (?m s)) = trace s @ es0 @ [Call req] @ es2"
        using e \<open>r = Return u\<close> g Return 2(1) s2 by (simp add: io_bind_def)
      with step [OF 2(2)] show ?thesis
        by blast
    next
      case (Raise err)
      have "trace (snd (?m s)) = trace s @ es0 @ [Call req] @ []"
        using e \<open>r = Return u\<close> g Raise s2 by (simp add: io_bind_def)
      with step [of "[]"] show ?thesis
        by (metis gated.simps(1))
    next
      case Timeout
      have "trace (snd (?m s)) = trace s @ es0 @ [Call req] @ []"
        using e \<open>r = Return u\<close> g Timeout s2 by (simp add: io_bind_def)
      with step [of "[]"] show ?thesis
        by (metis gated.simps(1))
    qed
  qed (use e 0 g0 in \<open>auto simp: io_bind_def\<close>)
qed

lemma adds_gated_fetch_all_repos_loop:
  "adds_gated (fetch_all_repos_loop env fuel org page repos)"
proof (induction fuel arbitrary: page repos)
  case 0
  show ?case by (simp add: adds_gated_def)
next
  case (Suc fuel)
  show ?case
    unfolding fetch_all_repos_loop.simps
    by (rule adds_gated_call) (simp_all add: adds_gated_bind Suc)
qed

lemma adds_gated_fetch_workflow_files: "adds_gated (fetch_workflow_files env org repo_name)"
  unfolding fetch_workflow_files_def
  by (rule adds_gated_call) (simp_all add: adds_gated_bind split: val.splits)

lemma adds_gated_parse_workflow_file: "adds_gated (parse_workflow_file env download_url)"
  unfolding parse_workflow_file_def
  by (rule adds_gated_call) simp_all

lemma adds_gated_note_extracted: "adds_gated (note_extracted org repo_name uses_list)"
  by (simp add: adds_gated_def note_extracted_def)

lemma adds_gated_crawl: "adds_gated (crawl env fuel my_orgs_lower orgs)"
proof -
  have w: "adds_gated (workflow_body env my_orgs_lower org repo_name wfile acc)"
    for org repo_name wfile acc
    unfolding workflow_body_def
    by (intro adds_gated_bind adds_gated_parse_workflow_file adds_gated_note_extracted) simp
  have r: "adds_gated (repo_body env my_orgs_lower org repo org_results)"
    for org repo org_results
    unfolding repo_body_def
    by (intro adds_gated_bind adds_gated_fetch_workflow_files)
       (simp_all add: adds_gated_bind adds_gated_for_each w)
  have "adds_gated (org_body env fuel my_orgs_lower org results)" for org results
    unfolding org_body_def fetch_all_repos_def
    by (intro adds_gated_bind adds_gated_fetch_all_repos_loop)
       (simp_all add: adds_gated_bind adds_gated_for_each r)
  then show ?thesis
    unfolding crawl_def by (rule adds_gated_for_each)
qed

lemma adds_gated_fetch_orgs: "adds_gated (fetch_orgs env)"
proof (rule adds_gatedI)
  fix s
  show "\<exists>es. trace (snd (fetch_orgs env s)) = trace s @ es \<and> (\<forall>opened. gated opened es)"
    using fetch_orgs_trace [of env s] by (intro exI [of _ "[Call UserOrgs]"]) simp
qed

lemma adds_gated_main: "adds_gated (main env fuel)"
proof -
  have "adds_gated (load_orgs env)"
    using adds_gated_fetch_orgs [of env]
    by (auto simp: adds_gated_def load_orgs_def split: option.splits)
  moreover have "adds_gated (write_results_file content)" for content
    by (simp add: adds_gated_def write_results_file_def)
  ultimately show ?thesis
    unfolding main_def
    by (simp add: adds_gated_bind adds_gated_crawl)
qed

text \<open>
  In every run, each request for a page of repositories, for a workflows directory and
  for a workflow file comes right after a quota check, or after the sleep that follows
  the check. The request for the organizations is the one call that is exempt in
  \<open>gated\<close>, because \<open>fetch_orgs\<close> issues it without the gate.
\<close>

lemma main_calls_gated:
  "trace s = [] \<Longrightarrow> gated False (trace (snd (main env fuel s)))"
  using adds_gatedD [OF adds_gated_main, of env fuel s] by auto

subsection \<open>A sleep that the interpreter refuses\<close>

lemmas far_defs = far_env_def far_get_def far_json_def

text \<open>
  A sleep that the interpreter refuses ends the run: with a reset time 1698300100000
  seconds ahead the first gate raises \<^verbatim>\<open>OverflowError\<close> before any request of the
  crawl, and such a remote side is not well-behaved.
\<close>

lemma far_reset_run:
  "main far_env (Suc (Suc 0)) (initial_state (Some ''cache'')) =
     (Raise OverflowError, (initial_state (Some ''cache''))\<lparr>trace := [Call RateLimit]\<rparr>)
   \<and> exit_status (fst (main far_env (Suc (Suc 0)) (initial_state (Some ''cache'')))) = Some 1"
proof -
  have "main far_env (Suc (Suc 0)) (initial_state (Some ''cache'')) =
     (Raise OverflowError, (initial_state (Some ''cache''))\<lparr>trace := [Call RateLimit]\<rparr>)"
    by (simp add: run_defs demo_defs far_defs max_sleep_def)
  then show ?thesis
    by simp
qed

lemma far_not_well_behaved: "\<not> well_behaved far_env"
proof
  assume "well_behaved far_env"
  then have "case http_get far_env [] RateLimit of
               Inl e \<Rightarrow> False
             | Inr resp \<Rightarrow> answer_ok far_env RateLimit resp"
    unfolding well_behaved_def by blast
  then have "sleepable far_env (VInt 1700000100000)"
    by (simp add: far_defs demo_defs quota_ok_def)
  then have "case minus_int (VInt 1700000100000) (now far_env []) of
               Inl e \<Rightarrow> False
             | Inr d \<Rightarrow> d \<le> max_sleep"
    unfolding sleepable_def by blast
  then show False
    by (simp add: far_defs demo_defs max_sleep_def)
qed

end
